theory Spec2Isabelle
  imports Complex_Main "HOL-Library.List_Lexorder" "HOL-Library.Char_ord" "HOL-Library.Multiset"
begin

section \<open>Text primitives shared by the modules\<close>

text \<open>
  Python strings are modelled as \<open>string\<close> restricted to ASCII text: the character
  classes of \<open>re\<close> and of \<open>str.lower\<close>, \<open>str.strip\<close>, \<open>str.split\<close> are written out for
  code points below 128. Similarity values are Python floats in the source; they are
  modelled as exact rationals.
\<close>

definition is_word_char :: "char \<Rightarrow> bool" where
  "is_word_char c =
     (let n = (of_char c :: nat)
      in (48 \<le> n \<and> n \<le> 57) \<or> (65 \<le> n \<and> n \<le> 90) \<or> (97 \<le> n \<and> n \<le> 122) \<or> n = 95)"

definition lower_char :: "char \<Rightarrow> char" where
  "lower_char c =
     (let n = (of_char c :: nat) in if 65 \<le> n \<and> n \<le> 90 then char_of (n + 32) else c)"

definition lower :: "string \<Rightarrow> string" where
  "lower s = map lower_char s"

text \<open>\<open>re.findall(r'\b\w+\b', s)\<close>: the maximal runs of word characters, left to right.\<close>

fun findall_words_aux :: "string \<Rightarrow> string \<Rightarrow> string list" where
  "findall_words_aux cur [] = (if cur = [] then [] else [cur])"
| "findall_words_aux cur (c # cs) =
     (if is_word_char c then findall_words_aux (cur @ [c]) cs
      else if cur = [] then findall_words_aux [] cs
      else cur # findall_words_aux [] cs)"

definition findall_words :: "string \<Rightarrow> string list" where
  "findall_words s = findall_words_aux [] s"

section \<open>semantic_search.py\<close>

datatype error = ValueError string | TypeError string

text \<open>
  The expression \<open>len(intersection) / len(union) if union else 0.0\<close> of
  \<open>get_similarity_scores\<close>, over two token sets.
\<close>

definition jaccard_similarity :: "'a set \<Rightarrow> 'a set \<Rightarrow> rat" where
  "jaccard_similarity a b =
     (if a \<union> b \<noteq> {} then of_nat (card (a \<inter> b)) / of_nat (card (a \<union> b)) else 0)"

definition word_set :: "string \<Rightarrow> string set" where
  "word_set s = set (findall_words (lower s))"

text \<open>
  The module global \<open>chunks\<close> is the state of the index; it starts as the empty list and
  every function takes it as its first argument. \<open>build_index\<close> returns the new state.
\<close>

definition build_index :: "string list \<Rightarrow> string list \<Rightarrow> error + string list" where
  "build_index chunks text_chunks =
     (if text_chunks = [] then Inl (ValueError ''No text chunks provided'')
      else Inr text_chunks)"

text \<open>The loop of \<open>search\<close>: a chunk is scored only when the union of the token sets is
  not empty.\<close>

fun scored_chunks :: "string set \<Rightarrow> (nat \<times> string) list \<Rightarrow> (rat \<times> nat \<times> string) list" where
  "scored_chunks query_words [] = []"
| "scored_chunks query_words ((i, chunk) # rest) =
     (let chunk_words = word_set chunk
      in if query_words \<union> chunk_words \<noteq> {}
         then (of_nat (card (query_words \<inter> chunk_words)) / of_nat (card (query_words \<union> chunk_words)),
               i, chunk) # scored_chunks query_words rest
         else scored_chunks query_words rest)"

text \<open>\<open>list.sort(key, reverse=True)\<close> is stable: a stable sort on the negated key.\<close>

definition sort_desc :: "('a \<Rightarrow> rat) \<Rightarrow> 'a list \<Rightarrow> 'a list" where
  "sort_desc key xs = sort_key (\<lambda>x. - key x) xs"

definition search_ranked :: "string list \<Rightarrow> string \<Rightarrow> nat \<Rightarrow> (rat \<times> nat \<times> string) list" where
  "search_ranked chunks query_text top_k =
     take top_k (sort_desc fst (scored_chunks (word_set query_text) (enumerate 0 chunks)))"

definition search :: "string list \<Rightarrow> string \<Rightarrow> nat \<Rightarrow> error + string list" where
  "search chunks query_text top_k =
     (if chunks = [] then Inl (ValueError ''Index not built yet. Please upload a document first.'')
      else let results = map (\<lambda>(s, i, chunk). chunk) (search_ranked chunks query_text top_k)
           in Inr (if results \<noteq> [] then results else take top_k chunks))"

record sim_result =
  chunk :: string
  similarity :: rat
  index :: nat

definition get_similarity_scores :: "string list \<Rightarrow> string \<Rightarrow> nat \<Rightarrow> sim_result list" where
  "get_similarity_scores chunks query_text top_k =
     (if chunks = [] then []
      else let query_words = word_set query_text;
               results = map (\<lambda>(i, c). \<lparr>chunk = c,
                                        similarity = jaccard_similarity query_words (word_set c),
                                        index = i\<rparr>) (enumerate 0 chunks)
           in take top_k (sort_desc similarity results))"


section \<open>Python helpers used by mapping_engine.py and traceability_matrix.py\<close>

text \<open>\<open>str.strip()\<close> and \<open>str.split()\<close> over ASCII whitespace.\<close>

definition is_space :: "char \<Rightarrow> bool" where
  "is_space c = (let n = (of_char c :: nat) in (9 \<le> n \<and> n \<le> 13) \<or> (28 \<le> n \<and> n \<le> 32))"

definition strip :: "string \<Rightarrow> string" where
  "strip s = rev (dropWhile is_space (rev (dropWhile is_space s)))"

fun split_ws_aux :: "string \<Rightarrow> string \<Rightarrow> string list" where
  "split_ws_aux cur [] = (if cur = [] then [] else [cur])"
| "split_ws_aux cur (c # cs) =
     (if \<not> is_space c then split_ws_aux (cur @ [c]) cs
      else if cur = [] then split_ws_aux [] cs
      else cur # split_ws_aux [] cs)"

definition split_ws :: "string \<Rightarrow> string list" where
  "split_ws s = split_ws_aux [] s"

text \<open>\<open>sep.join(parts)\<close>.\<close>

fun join :: "string \<Rightarrow> string list \<Rightarrow> string" where
  "join sep [] = []"
| "join sep [x] = x"
| "join sep (x # y # ys) = x @ sep @ join sep (y # ys)"

text \<open>\<open>needle in hay\<close> on strings.\<close>

fun is_substring :: "string \<Rightarrow> string \<Rightarrow> bool" where
  "is_substring needle [] = (needle = [])"
| "is_substring needle (c # cs) = (take (length needle) (c # cs) = needle \<or> is_substring needle cs)"

text \<open>
  \<open>round(x, n)\<close>: rounding to \<open>n\<close> decimals, a tie going to the even neighbour. The
  source rounds floats; the model rounds the exact rational.
\<close>

definition round_half_even :: "rat \<Rightarrow> int" where
  "round_half_even x =
     (let f = \<lfloor>x\<rfloor>; d = x - of_int f
      in if d < 1 / 2 then f else if 1 / 2 < d then f + 1 else if even f then f else f + 1)"

definition py_round :: "rat \<Rightarrow> nat \<Rightarrow> rat" where
  "py_round x n = of_int (round_half_even (x * 10 ^ n)) / 10 ^ n"

text \<open>The excerpt \<open>c[:n] + "..." if len(c) > n else c\<close>.\<close>

definition excerpt :: "nat \<Rightarrow> string \<Rightarrow> string" where
  "excerpt n c = (if length c > n then take n c @ ''...'' else c)"

section \<open>Records exchanged by the modules\<close>

text \<open>
  A requirement is the dict built by the extractor. A test case is a dict read with
  \<open>.get\<close>: a field is \<open>None\<close> when the key is absent. The text fields may hold a string,
  a list of strings or \<open>None\<close>; the id fields hold strings.
\<close>

record requirement =
  req_id :: string
  req_type :: string
  content :: string
  chunk_index :: nat
  priority :: string
  category :: string
  validation_status :: string

datatype pyval = PStr string | PList "string list" | PNone

record test_case =
  tc_id :: "string option"
  tc_title :: "pyval option"
  tc_description :: "pyval option"
  tc_steps :: "pyval option"
  tc_query :: "pyval option"
  tc_requirement_id :: "string option"
  tc_type :: "string option"
  tc_priority :: "string option"
  tc_status :: "string option"

text \<open>An element of the list handed to the mapper: a dict or anything else.\<close>

datatype tc_entry = TcDict test_case | TcOther

text \<open>Python truthiness of an optional string: present and not empty.\<close>

definition truthy :: "string option \<Rightarrow> bool" where
  "truthy v = (case v of None \<Rightarrow> False | Some s \<Rightarrow> s \<noteq> [])"

text \<open>\<open>" ".join([tc.get(f, '') ...])\<close> raises \<open>TypeError\<close> unless every value is a string.\<close>

fun get_str :: "pyval option \<Rightarrow> error + string" where
  "get_str None = Inr []"
| "get_str (Some (PStr s)) = Inr s"
| "get_str (Some (PList l)) = Inl (TypeError ''sequence item: expected str instance, list found'')"
| "get_str (Some PNone) = Inl (TypeError ''sequence item: expected str instance, NoneType found'')"

fun join_fields :: "pyval option list \<Rightarrow> error + string list" where
  "join_fields [] = Inr []"
| "join_fields (v # vs) =
     (case get_str v of Inl e \<Rightarrow> Inl e
      | Inr s \<Rightarrow> (case join_fields vs of Inl e \<Rightarrow> Inl e | Inr ss \<Rightarrow> Inr (s # ss)))"

definition keyword_content :: "test_case \<Rightarrow> error + string" where
  "keyword_content tc =
     (case join_fields [tc_title tc, tc_description tc, tc_steps tc, tc_query tc] of
        Inl e \<Rightarrow> Inl e
      | Inr parts \<Rightarrow> Inr (lower (join '' '' parts)))"

section \<open>mapping_engine.py: the mapper\<close>

record match =
  requirement_id :: string
  similarity_score :: rat
  match_content :: string

record mapping_result =
  test_case_id :: "string option"
  test_case_title :: "pyval option"
  mapped_requirements :: "match list"
  mapping_confidence :: rat
  mapping_method :: string
  mapping_date :: string

definition mk_match :: "requirement \<Rightarrow> rat \<Rightarrow> match" where
  "mk_match req s = \<lparr>requirement_id = req_id req, similarity_score = s,
                      match_content = excerpt 200 (content req)\<rparr>"

text \<open>The field loop of \<open>_find_matching_requirements\<close> that builds \<open>test_content_parts\<close>.\<close>

fun content_part :: "pyval option \<Rightarrow> string" where
  "content_part None = []"
| "content_part (Some (PStr s)) = s"
| "content_part (Some (PList l)) = join '' '' l"
| "content_part (Some PNone) = []"

definition test_content :: "test_case \<Rightarrow> string" where
  "test_content tc =
     strip (join '' '' (map content_part [tc_title tc, tc_description tc, tc_steps tc, tc_query tc]))"

definition threshold :: rat where
  "threshold = 3 / 10"

text \<open>
  The body of the \<open>try\<close>: the scores of the chunk index for the composite text, and for
  every scored chunk above the threshold the first requirement whose content is inside
  the chunk or contains it. No operation of the body raises on these records
  (\<open>get_similarity_scores\<close> catches its own exceptions), so the result is always \<open>Inr\<close>.
\<close>

fun retrieval_matches :: "requirement list \<Rightarrow> sim_result list \<Rightarrow> match list" where
  "retrieval_matches requirements [] = []"
| "retrieval_matches requirements (sim # sims) =
     (if similarity sim > threshold
      then (case find (\<lambda>req. is_substring (content req) (chunk sim)
                             \<or> is_substring (chunk sim) (content req)) requirements of
              None \<Rightarrow> retrieval_matches requirements sims
            | Some req \<Rightarrow> mk_match req (similarity sim) # retrieval_matches requirements sims)
      else retrieval_matches requirements sims)"

definition try_retrieval :: "string list \<Rightarrow> string \<Rightarrow> requirement list \<Rightarrow> error + match list" where
  "try_retrieval chunks tcontent requirements =
     Inr (retrieval_matches requirements
            (get_similarity_scores chunks tcontent (length (map content requirements))))"

fun keyword_loop :: "string set \<Rightarrow> requirement list \<Rightarrow> match list" where
  "keyword_loop test_keywords [] = []"
| "keyword_loop test_keywords (req # reqs) =
     (let req_keywords = word_set (content req)
      in if test_keywords \<union> req_keywords \<noteq> {}
            \<and> of_nat (card (test_keywords \<inter> req_keywords))
                 / of_nat (card (test_keywords \<union> req_keywords)) > threshold
         then mk_match req (of_nat (card (test_keywords \<inter> req_keywords))
                             / of_nat (card (test_keywords \<union> req_keywords)))
              # keyword_loop test_keywords reqs
         else keyword_loop test_keywords reqs)"

definition keyword_based_matching :: "test_case \<Rightarrow> requirement list \<Rightarrow> error + match list" where
  "keyword_based_matching tc requirements =
     (case keyword_content tc of
        Inl e \<Rightarrow> Inl e
      | Inr tcontent \<Rightarrow> Inr (keyword_loop (set (findall_words tcontent)) requirements))"

text \<open>
  \<open>unique_matches\<close> is a dict keyed by requirement id: a key keeps the place of its first
  insertion, and its value is replaced only by a match with a greater score.
\<close>

fun unique_insert :: "match \<Rightarrow> match list \<Rightarrow> match list" where
  "unique_insert m [] = [m]"
| "unique_insert m (u # us) =
     (if requirement_id u = requirement_id m
      then (if similarity_score m > similarity_score u then m else u) # us
      else u # unique_insert m us)"

definition unique_matches :: "match list \<Rightarrow> match list" where
  "unique_matches ms = foldl (\<lambda>acc m. unique_insert m acc) [] ms"

definition find_matching_requirements ::
  "string list \<Rightarrow> test_case \<Rightarrow> requirement list \<Rightarrow> error + match list" where
  "find_matching_requirements chunks tc requirements =
     (if requirements = [] then Inr []
      else if test_content tc = [] then Inr []
      else case (case try_retrieval chunks (test_content tc) requirements of
                   Inr ms \<Rightarrow> Inr ms
                 | Inl e \<Rightarrow> keyword_based_matching tc requirements) of
             Inl e \<Rightarrow> Inl e
           | Inr matched \<Rightarrow> Inr (take 3 (sort_desc similarity_score (unique_matches matched))))"

text \<open>\<open>max(req['similarity_score'] for req in mapped_requirements)\<close>; the caller has
  returned before when the list is empty.\<close>

fun max_score :: "match list \<Rightarrow> rat" where
  "max_score [] = 0"
| "max_score (m # ms) = fold (\<lambda>x acc. max acc (similarity_score x)) ms (similarity_score m)"

definition calculate_mapping_confidence :: "test_case \<Rightarrow> match list \<Rightarrow> requirement list \<Rightarrow> rat" where
  "calculate_mapping_confidence tc mapped all_requirements =
     (if mapped = [] then 0
      else let max_similarity = max_score mapped;
               boosted = (if truthy (tc_requirement_id tc)
                             \<and> list_ex (\<lambda>m. Some (requirement_id m) = tc_requirement_id tc) mapped
                          then min 1 (max_similarity + 2 / 10) else max_similarity);
               reduced = (if length mapped > 2 then boosted * (8 / 10) else boosted)
           in py_round reduced 3)"

text \<open>\<open>datetime.now().isoformat()\<close> is the parameter \<open>now\<close>.\<close>

fun map_valid_test_cases ::
  "string list \<Rightarrow> string \<Rightarrow> test_case list \<Rightarrow> requirement list \<Rightarrow> error + mapping_result list" where
  "map_valid_test_cases chunks now [] requirements = Inr []"
| "map_valid_test_cases chunks now (tc # tcs) requirements =
     (case find_matching_requirements chunks tc requirements of
        Inl e \<Rightarrow> Inl e
      | Inr mapped \<Rightarrow>
          (case map_valid_test_cases chunks now tcs requirements of
             Inl e \<Rightarrow> Inl e
           | Inr rest \<Rightarrow>
               Inr (\<lparr>test_case_id = tc_id tc,
                     test_case_title = tc_title tc,
                     mapped_requirements = mapped,
                     mapping_confidence = calculate_mapping_confidence tc mapped requirements,
                     mapping_method = ''semantic_similarity'',
                     mapping_date = now\<rparr> # rest)))"

fun valid_test_cases :: "tc_entry list \<Rightarrow> test_case list" where
  "valid_test_cases [] = []"
| "valid_test_cases (TcDict tc # es) = tc # valid_test_cases es"
| "valid_test_cases (TcOther # es) = valid_test_cases es"

definition map_test_cases_to_requirements ::
  "string list \<Rightarrow> string \<Rightarrow> tc_entry list \<Rightarrow> requirement list \<Rightarrow> error + mapping_result list" where
  "map_test_cases_to_requirements chunks now test_cases requirements =
     map_valid_test_cases chunks now (valid_test_cases test_cases) requirements"


section \<open>Auxiliary definitions for the statements about the mapper\<close>

text \<open>The matches of the retrieval path after deduplication, ranking and truncation.\<close>

definition ranked_matches :: "string list \<Rightarrow> test_case \<Rightarrow> requirement list \<Rightarrow> match list" where
  "ranked_matches chunks tc reqs =
     take 3 (sort_desc similarity_score (unique_matches (retrieval_matches reqs
        (get_similarity_scores chunks (test_content tc) (length reqs)))))"

text \<open>A requirement, a test case that names it, and the shape of its mapping result.\<close>

definition example_req :: requirement where
  "example_req = \<lparr>req_id = ''FUNCTIONAL_0_0'', req_type = ''functional'',
     content = ''user login page'', chunk_index = 0, priority = ''medium'',
     category = ''authentication'', validation_status = ''pending''\<rparr>"

definition example_tc :: test_case where
  "example_tc = \<lparr>tc_id = Some ''TC_001'', tc_title = Some (PStr ''User login''),
     tc_description = None, tc_steps = None, tc_query = None,
     tc_requirement_id = Some ''FUNCTIONAL_0_0'', tc_type = None, tc_priority = None,
     tc_status = None\<rparr>"

definition example_result :: "match list \<Rightarrow> rat \<Rightarrow> mapping_result" where
  "example_result ms c = \<lparr>test_case_id = Some ''TC_001'',
     test_case_title = Some (PStr ''User login''), mapped_requirements = ms,
     mapping_confidence = c, mapping_method = ''semantic_similarity'', mapping_date = ''t''\<rparr>"

section \<open>traceability_matrix.py\<close>

record matrix_requirement =
  mr_id :: string
  mr_type :: string
  mr_priority :: string
  mr_category :: string
  mr_content :: string
  covered :: bool
  test_case_count :: nat

record matrix_test_case =
  mt_id :: string
  mt_title :: pyval
  mt_type :: string
  mt_priority :: string
  mt_status :: string
  requirement_mappings :: "string list"

record matrix_metadata =
  generation_date :: string
  total_requirements :: nat
  total_test_cases :: nat

text \<open>
  \<open>mappings\<close> is a dict from requirement id to the list of test-case ids, kept as an
  association list in insertion order; a test-case id is \<open>None\<close> when the test case has
  no \<open>id\<close> key.
\<close>

record matrix =
  requirements :: "matrix_requirement list"
  test_cases :: "matrix_test_case list"
  mappings :: "(string \<times> string option list) list"
  metadata :: matrix_metadata

definition req_entry :: "requirement \<Rightarrow> matrix_requirement" where
  "req_entry req = \<lparr>mr_id = req_id req, mr_type = req_type req, mr_priority = priority req,
                      mr_category = category req, mr_content = excerpt 200 (content req),
                      covered = False, test_case_count = 0\<rparr>"

definition get_default :: "'a option \<Rightarrow> 'a \<Rightarrow> 'a" where
  "get_default v d = (case v of None \<Rightarrow> d | Some x \<Rightarrow> x)"

definition tc_entry_of :: "test_case \<Rightarrow> string list \<Rightarrow> matrix_test_case" where
  "tc_entry_of tc mapped_req_ids =
     \<lparr>mt_id = get_default (tc_id tc) ''Unknown'',
      mt_title = get_default (tc_title tc) (PStr ''Untitled''),
      mt_type = get_default (tc_type tc) ''Functional'',
      mt_priority = get_default (tc_priority tc) ''Medium'',
      mt_status = get_default (tc_status tc) ''Generated'',
      requirement_mappings = mapped_req_ids\<rparr>"

text \<open>The keyword loop of \<open>_find_mapped_requirements\<close>, with \<open>mapped_reqs\<close> as accumulator.\<close>

fun overlap_loop :: "string set \<Rightarrow> requirement list \<Rightarrow> string list \<Rightarrow> string list" where
  "overlap_loop test_keywords [] mapped_reqs = mapped_reqs"
| "overlap_loop test_keywords (req # reqs) mapped_reqs =
     (let req_keywords = set (split_ws (lower (content req)))
      in if card (req_keywords \<inter> test_keywords) \<ge> 3 \<and> req_id req \<notin> set mapped_reqs
         then overlap_loop test_keywords reqs (mapped_reqs @ [req_id req])
         else overlap_loop test_keywords reqs mapped_reqs)"

definition find_mapped_requirements :: "test_case \<Rightarrow> requirement list \<Rightarrow> error + string list" where
  "find_mapped_requirements tc reqs =
     (let mapped_reqs = (case tc_requirement_id tc of
                           None \<Rightarrow> []
                         | Some explicit_req \<Rightarrow> if explicit_req \<noteq> [] then [explicit_req] else [])
      in case keyword_content tc of
           Inl e \<Rightarrow> Inl e
         | Inr tcontent \<Rightarrow> Inr (overlap_loop (set (split_ws tcontent)) reqs mapped_reqs))"

text \<open>\<open>mappings[req_id].append(tc_id)\<close>, creating the key when it is new.\<close>

fun append_mapping ::
  "string \<Rightarrow> string option \<Rightarrow> (string \<times> string option list) list \<Rightarrow> (string \<times> string option list) list" where
  "append_mapping k v [] = [(k, [v])]"
| "append_mapping k v ((k', vs) # rest) =
     (if k' = k then (k', vs @ [v]) # rest else (k', vs) # append_mapping k v rest)"

text \<open>The inner loop over \<open>matrix['requirements']\<close>: the first entry with the id is
  updated, then \<open>break\<close>.\<close>

fun mark_covered :: "string \<Rightarrow> matrix_requirement list \<Rightarrow> matrix_requirement list" where
  "mark_covered k [] = []"
| "mark_covered k (e # es) =
     (if mr_id e = k then e\<lparr>covered := True, test_case_count := test_case_count e + 1\<rparr> # es
      else e # mark_covered k es)"

fun update_coverage ::
  "string option \<Rightarrow> string list \<Rightarrow> matrix_requirement list \<times> (string \<times> string option list) list
     \<Rightarrow> matrix_requirement list \<times> (string \<times> string option list) list" where
  "update_coverage tid [] (entries, maps) = (entries, maps)"
| "update_coverage tid (k # ks) (entries, maps) =
     update_coverage tid ks (mark_covered k entries, append_mapping k tid maps)"

fun process_test_cases ::
  "requirement list \<Rightarrow> test_case list
     \<Rightarrow> matrix_requirement list \<times> (string \<times> string option list) list \<times> matrix_test_case list
     \<Rightarrow> error + (matrix_requirement list \<times> (string \<times> string option list) list \<times> matrix_test_case list)" where
  "process_test_cases reqs [] st = Inr st"
| "process_test_cases reqs (tc # tcs) (entries, maps, tces) =
     (case find_mapped_requirements tc reqs of
        Inl e \<Rightarrow> Inl e
      | Inr mapped_req_ids \<Rightarrow>
          (case update_coverage (tc_id tc) mapped_req_ids (entries, maps) of
             (entries', maps') \<Rightarrow>
               process_test_cases reqs tcs (entries', maps', tces @ [tc_entry_of tc mapped_req_ids])))"

definition generate_matrix :: "string \<Rightarrow> requirement list \<Rightarrow> test_case list \<Rightarrow> error + matrix" where
  "generate_matrix now reqs tcs =
     (case process_test_cases reqs tcs (map req_entry reqs, [], []) of
        Inl e \<Rightarrow> Inl e
      | Inr (entries, maps, tces) \<Rightarrow>
          Inr \<lparr>requirements = entries, test_cases = tces, mappings = maps,
               metadata = \<lparr>generation_date = now, total_requirements = length reqs,
                           total_test_cases = length tcs\<rparr>\<rparr>)"

subsection \<open>calculate_coverage_stats\<close>

record overall =
  oc_total_requirements :: nat
  oc_covered_requirements :: nat
  oc_uncovered_requirements :: nat
  coverage_percentage :: rat

record group_coverage =
  gc_total :: nat
  gc_covered :: nat
  gc_percentage :: rat

record coverage_stats =
  overall_coverage :: overall
  coverage_by_type :: "(string \<times> group_coverage) list"
  coverage_by_priority :: "(string \<times> group_coverage) list"
  test_case_distribution :: "(string \<times> nat) list"
  uncovered_requirements :: "(string \<times> string) list"

text \<open>The expression \<open>round((c / t * 100) if t > 0 else 0, 2)\<close>.\<close>

definition percentage :: "nat \<Rightarrow> nat \<Rightarrow> rat" where
  "percentage c t = py_round (if t > 0 then of_nat c / of_nat t * 100 else 0) 2"

fun bump_group :: "string \<Rightarrow> bool \<Rightarrow> (string \<times> nat \<times> nat) list \<Rightarrow> (string \<times> nat \<times> nat) list" where
  "bump_group k c [] = [(k, 1, if c then 1 else 0)]"
| "bump_group k c ((k', t, cv) # rest) =
     (if k' = k then (k', t + 1, if c then cv + 1 else cv) # rest
      else (k', t, cv) # bump_group k c rest)"

definition coverage_by :: "(matrix_requirement \<Rightarrow> string) \<Rightarrow> matrix_requirement list
                             \<Rightarrow> (string \<times> group_coverage) list" where
  "coverage_by key reqs =
     map (\<lambda>(k, t, c). (k, \<lparr>gc_total = t, gc_covered = c, gc_percentage = percentage c t\<rparr>))
         (foldl (\<lambda>acc r. bump_group (key r) (covered r) acc) [] reqs)"

fun bump_count :: "string \<Rightarrow> (string \<times> nat) list \<Rightarrow> (string \<times> nat) list" where
  "bump_count k [] = [(k, 1)]"
| "bump_count k ((k', n) # rest) =
     (if k' = k then (k', n + 1) # rest else (k', n) # bump_count k rest)"

text \<open>
  \<open>if not matrix_data: return {}\<close>: the argument is \<open>None\<close> when no matrix was given, and
  the empty dict returned then is \<open>None\<close>. A generated matrix is never an empty dict.
\<close>

definition calculate_coverage_stats :: "matrix option \<Rightarrow> coverage_stats option" where
  "calculate_coverage_stats matrix_data =
     (case matrix_data of
        None \<Rightarrow> None
      | Some m \<Rightarrow>
          (let reqs = requirements m;
               total_reqs = length reqs;
               covered_reqs = sum_list (map (\<lambda>req. if covered req then 1 else 0) reqs);
               uncovered_reqs = total_reqs - covered_reqs
           in Some \<lparr>overall_coverage =
                      \<lparr>oc_total_requirements = total_reqs,
                       oc_covered_requirements = covered_reqs,
                       oc_uncovered_requirements = uncovered_reqs,
                       coverage_percentage = percentage covered_reqs total_reqs\<rparr>,
                    coverage_by_type = coverage_by mr_type reqs,
                    coverage_by_priority = coverage_by mr_priority reqs,
                    test_case_distribution =
                      foldl (\<lambda>acc tc. bump_count (mt_type tc) acc) [] (test_cases m),
                    uncovered_requirements =
                      take 10 (map (\<lambda>req. (mr_id req, take 100 (mr_content req) @ ''...''))
                                   (filter (\<lambda>req. \<not> covered req) reqs))\<rparr>))"

text \<open>Records for the statements about the matrix.\<close>

definition stale_tc :: test_case where
  "stale_tc = \<lparr>tc_id = Some ''TC_002'', tc_title = Some (PStr ''User login''),
     tc_description = None, tc_steps = None, tc_query = None,
     tc_requirement_id = Some ''REQ_001'', tc_type = None, tc_priority = None,
     tc_status = None\<rparr>"

definition other_req :: requirement where
  "other_req = \<lparr>req_id = ''FUNCTIONAL_1'', req_type = ''functional'',
     content = ''password reset'', chunk_index = 1, priority = ''medium'',
     category = ''authentication'', validation_status = ''pending''\<rparr>"

definition example_matrix :: matrix where
  "example_matrix =
     \<lparr>requirements =
        [\<lparr>mr_id = ''FUNCTIONAL_0_0'', mr_type = ''functional'', mr_priority = ''medium'',
          mr_category = ''authentication'', mr_content = ''user login page'', covered = True,
          test_case_count = 1\<rparr>,
         \<lparr>mr_id = ''FUNCTIONAL_1'', mr_type = ''functional'', mr_priority = ''medium'',
          mr_category = ''authentication'', mr_content = ''password reset'', covered = False,
          test_case_count = 0\<rparr>],
      test_cases =
        [\<lparr>mt_id = ''TC_001'', mt_title = PStr ''User login'', mt_type = ''Functional'',
          mt_priority = ''Medium'', mt_status = ''Generated'',
          requirement_mappings = [''FUNCTIONAL_0_0'']\<rparr>,
         \<lparr>mt_id = ''TC_002'', mt_title = PStr ''User login'', mt_type = ''Functional'',
          mt_priority = ''Medium'', mt_status = ''Generated'',
          requirement_mappings = [''REQ_001'']\<rparr>],
      mappings = [(''FUNCTIONAL_0_0'', [Some ''TC_001'']), (''REQ_001'', [Some ''TC_002''])],
      metadata = \<lparr>generation_date = ''t'', total_requirements = 2, total_test_cases = 2\<rparr>\<rparr>"

definition stale_matrix :: matrix where
  "stale_matrix =
     \<lparr>requirements =
        [\<lparr>mr_id = ''FUNCTIONAL_0_0'', mr_type = ''functional'', mr_priority = ''medium'',
          mr_category = ''authentication'', mr_content = ''user login page'', covered = False,
          test_case_count = 0\<rparr>],
      test_cases =
        [\<lparr>mt_id = ''TC_002'', mt_title = PStr ''User login'', mt_type = ''Functional'',
          mt_priority = ''Medium'', mt_status = ''Generated'',
          requirement_mappings = [''REQ_001'']\<rparr>],
      mappings = [(''REQ_001'', [Some ''TC_002''])],
      metadata = \<lparr>generation_date = ''t'', total_requirements = 1, total_test_cases = 1\<rparr>\<rparr>"


text \<open>The loop invariant of \<open>generate_matrix\<close>: every list in \<open>mappings\<close> is non-empty, the
  keys are distinct, and an entry is covered exactly when its id is a key.\<close>

definition coverage_inv :: "matrix_requirement list \<Rightarrow> (string \<times> string option list) list \<Rightarrow> bool" where
  "coverage_inv entries maps =
     ((\<forall>(k, vs) \<in> set maps. vs \<noteq> []) \<and> distinct (map fst maps)
      \<and> map covered entries = map (\<lambda>e. mr_id e \<in> fst ` set maps) entries)"

section \<open>The regular expressions of the extractor\<close>

text \<open>
  The patterns of \<open>extract_requirements\<close> use literals (matched case-insensitively under
  \<open>(?i)\<close>), alternation, the classes \<open>\d\<close>, \<open>[_\-\s]\<close> and \<open>.\<close>, greedy \<open>*\<close> and \<open>?\<close>, and
  at most one capturing group. \<open>rmatch r s cap\<close> lists, in the order in which the
  backtracking matcher of \<open>re\<close> tries them, the ways in which \<open>r\<close> matches a prefix of
  \<open>s\<close>: each is the rest of the input with the text captured by the group. The match
  that \<open>re\<close> reports at a position is the first element.
\<close>

datatype cclass = Digit | Sep | AnyChar

definition is_digit :: "char \<Rightarrow> bool" where
  "is_digit c = (let n = (of_char c :: nat) in 48 \<le> n \<and> n \<le> 57)"

fun in_class :: "cclass \<Rightarrow> char \<Rightarrow> bool" where
  "in_class Digit c = is_digit c"
| "in_class Sep c = (c = CHR ''_'' \<or> c = CHR ''-'' \<or> is_space c)"
| "in_class AnyChar c = (c \<noteq> CHR 0x0A)"

datatype regex =
    Lit string
  | Cls cclass
  | Star cclass
  | Seq regex regex
  | Alt regex regex
  | Opt regex
  | Grp regex

fun rmatch :: "regex \<Rightarrow> string \<Rightarrow> string option \<Rightarrow> (string \<times> string option) list" where
  "rmatch (Lit l) s cap =
     (if length l \<le> length s \<and> lower (take (length l) s) = lower l
      then [(drop (length l) s, cap)] else [])"
| "rmatch (Cls c) s cap =
     (case s of [] \<Rightarrow> [] | x # xs \<Rightarrow> if in_class c x then [(xs, cap)] else [])"
| "rmatch (Star c) s cap =
     map (\<lambda>n. (drop n s, cap)) (rev [0 ..< Suc (length (takeWhile (in_class c) s))])"
| "rmatch (Seq a b) s cap = concat (map (\<lambda>(s', cap'). rmatch b s' cap') (rmatch a s cap))"
| "rmatch (Alt a b) s cap = rmatch a s cap @ rmatch b s cap"
| "rmatch (Opt a) s cap = rmatch a s cap @ [(s, cap)]"
| "rmatch (Grp a) s cap =
     map (\<lambda>(s', cap'). (s', Some (take (length s - length s') s))) (rmatch a s cap)"

text \<open>
  \<open>re.finditer\<close>: the matches from left to right, each as (start, end, group 1); the
  search resumes at the end of a match. \<open>skip\<close> counts the characters still covered by
  the last match.
\<close>

fun finditer_aux :: "regex \<Rightarrow> nat \<Rightarrow> nat \<Rightarrow> string \<Rightarrow> (nat \<times> nat \<times> string option) list" where
  "finditer_aux r pos skip [] =
     (if skip = 0
      then (case rmatch r [] None of [] \<Rightarrow> [] | (rest, cap) # other \<Rightarrow> [(pos, pos, cap)])
      else [])"
| "finditer_aux r pos skip (c # cs) =
     (if skip > 0 then finditer_aux r (pos + 1) (skip - 1) cs
      else (case rmatch r (c # cs) None of
              [] \<Rightarrow> finditer_aux r (pos + 1) 0 cs
            | (rest, cap) # other \<Rightarrow>
                (let n = length (c # cs) - length rest
                 in (pos, pos + n, cap) # finditer_aux r (pos + 1) (n - 1) cs)))"

definition finditer :: "regex \<Rightarrow> string \<Rightarrow> (nat \<times> nat \<times> string option) list" where
  "finditer r s = finditer_aux r 0 0 s"

text \<open>\<open>(\d+\.?\d*)\<close> and \<open>[_\-\s]*(\d+\.?\d*)\<close>.\<close>

definition number_re :: regex where
  "number_re = Seq (Cls Digit) (Seq (Star Digit) (Seq (Opt (Lit ''.'')) (Star Digit)))"

definition sep_number :: regex where
  "sep_number = Seq (Star Sep) (Grp number_re)"

text \<open>The dict \<open>enhanced_patterns\<close>, in its insertion order.\<close>

definition enhanced_patterns :: "(string \<times> regex list) list" where
  "enhanced_patterns =
     [(''functional'',
        [Seq (Alt (Lit ''FR'') (Alt (Lit ''functional requirement'') (Lit ''requirement''))) sep_number,
         Seq (Alt (Lit ''REQ'') (Lit ''requirement'')) sep_number,
         Seq (Lit ''the system shall'') (Seq (Star Sep) (Opt (Grp number_re))),
         Seq (Lit ''the system must'') (Seq (Star Sep) (Opt (Grp number_re))),
         Seq (Lit ''function'') sep_number]),
      (''non_functional'',
        [Seq (Alt (Lit ''NFR'') (Seq (Lit ''non'') (Seq (Opt (Cls AnyChar)) (Lit ''functional''))))
             sep_number,
         Seq (Alt (Lit ''performance'') (Alt (Lit ''security'') (Lit ''usability''))) sep_number,
         Seq (Alt (Lit ''quality'') (Lit ''reliability'')) sep_number]),
      (''user_story'',
        [Seq (Alt (Lit ''US'') (Lit ''user story'')) sep_number,
         Seq (Lit ''as a '') (Seq (Star AnyChar) (Seq (Lit '' I want '')
             (Seq (Star AnyChar) (Lit '' so that'')))),
         Seq (Lit ''story'') sep_number])]"

section \<open>mapping_engine.py: the extractor\<close>

definition upper_char :: "char \<Rightarrow> char" where
  "upper_char c =
     (let n = (of_char c :: nat) in if 97 \<le> n \<and> n \<le> 122 then char_of (n - 32) else c)"

definition upper :: "string \<Rightarrow> string" where
  "upper s = map upper_char s"

text \<open>\<open>str(n)\<close> for a non-negative integer.\<close>

definition digit_char :: "nat \<Rightarrow> char" where
  "digit_char d = char_of (48 + d)"

fun str_nat :: "nat \<Rightarrow> string" where
  "str_nat n = (if n < 10 then [digit_char n] else str_nat (n div 10) @ [digit_char (n mod 10)])"

text \<open>\<open>re.split(r'[.!?]+', text)\<close>: the pieces between the maximal runs of delimiters.\<close>

definition is_delim :: "char \<Rightarrow> bool" where
  "is_delim c = (c = CHR ''.'' \<or> c = CHR ''!'' \<or> c = CHR ''?'')"

fun split_sentences_aux :: "string \<Rightarrow> bool \<Rightarrow> string \<Rightarrow> string list" where
  "split_sentences_aux cur in_run [] = [cur]"
| "split_sentences_aux cur in_run (c # cs) =
     (if is_delim c
      then (if in_run then split_sentences_aux cur True cs
            else cur # split_sentences_aux [] True cs)
      else split_sentences_aux (cur @ [c]) False cs)"

definition re_split_sentences :: "string \<Rightarrow> string list" where
  "re_split_sentences text = split_sentences_aux [] False text"

definition split_into_sentences :: "string \<Rightarrow> string list" where
  "split_into_sentences text =
     map strip (filter (\<lambda>s. strip s \<noteq> []) (re_split_sentences text))"

text \<open>The loop of \<open>_extract_requirement_content_enhanced\<close> over the sentences.\<close>

fun locate_sentence :: "string list \<Rightarrow> nat \<Rightarrow> nat \<Rightarrow> nat \<Rightarrow> string list \<Rightarrow> string option" where
  "locate_sentence sentences i current_pos target_pos [] = None"
| "locate_sentence sentences i current_pos target_pos (sentence # rest) =
     (let sentence_len = length sentence + 1
      in if current_pos \<le> target_pos \<and> target_pos \<le> current_pos + sentence_len
         then Some (join ''. ''
                 ((if i > 0 then [strip (sentences ! (i - 1))] else [])
                  @ [strip sentence]
                  @ (if i < length sentences - 1 then [strip (sentences ! (i + 1))] else [])))
         else locate_sentence sentences (i + 1) (current_pos + sentence_len) target_pos rest)"

definition extract_requirement_content_enhanced :: "string \<Rightarrow> nat \<Rightarrow> nat \<Rightarrow> string" where
  "extract_requirement_content_enhanced text start end' =
     (let sentences = re_split_sentences text
      in case locate_sentence sentences 0 0 start sentences of
           Some context \<Rightarrow> context
         | None \<Rightarrow>
             (let context_start = start - 150;
                  context_end = min (length text) (end' + 150)
              in take (context_end - context_start) (drop context_start text)))"

definition determine_priority :: "string \<Rightarrow> string" where
  "determine_priority c =
     (let content_lower = lower c
      in if list_ex (\<lambda>k. is_substring k content_lower)
              [''critical'', ''essential'', ''must'', ''required'', ''mandatory'', ''shall'']
         then ''high''
         else if list_ex (\<lambda>k. is_substring k content_lower)
              [''should'', ''important'', ''recommended'']
         then ''medium''
         else if list_ex (\<lambda>k. is_substring k content_lower)
              [''may'', ''could'', ''optional'', ''nice to have'']
         then ''low''
         else ''medium'')"

definition categories :: "(string \<times> string list) list" where
  "categories =
     [(''authentication'', [''login'', ''password'', ''authentication'', ''credential'', ''user access'']),
      (''validation'', [''validate'', ''validation'', ''verify'', ''check'', ''ensure'']),
      (''interface'', [''display'', ''show'', ''interface'', ''ui'', ''user interface'', ''screen'']),
      (''data'', [''data'', ''database'', ''store'', ''save'', ''retrieve'', ''record'']),
      (''security'', [''security'', ''secure'', ''permission'', ''authorization'', ''access control'']),
      (''performance'', [''performance'', ''speed'', ''response time'', ''load'', ''scalability'']),
      (''integration'', [''integration'', ''api'', ''external'', ''third party'', ''interface''])]"

definition categorize_requirement :: "string \<Rightarrow> string" where
  "categorize_requirement c =
     (let content_lower = lower c
      in case find (\<lambda>(cat, keywords). list_ex (\<lambda>k. is_substring k content_lower) keywords)
                   categories of
           Some (cat, keywords) \<Rightarrow> cat
         | None \<Rightarrow> ''general'')"

text \<open>
  \<open>hash\<close> is a parameter \<open>h\<close> of the extractor: any function from strings to fingerprints.
  \<open>processed_content\<close> is the set of fingerprints seen so far in the call.
\<close>

definition content_hash :: "(string \<Rightarrow> 'h) \<Rightarrow> string \<Rightarrow> 'h" where
  "content_hash h c = (if strip c \<noteq> [] then h (take 100 (strip c)) else h [])"

definition positional_id :: "string \<Rightarrow> nat \<Rightarrow> nat \<Rightarrow> string" where
  "positional_id ty chunk_idx n = upper ty @ ''_'' @ str_nat chunk_idx @ ''_'' @ str_nat n"

definition numbered_id :: "string \<Rightarrow> string \<Rightarrow> string" where
  "numbered_id ty g = upper ty @ ''_'' @ g"

definition generic_id :: "nat \<Rightarrow> nat \<Rightarrow> string" where
  "generic_id chunk_idx i = ''REQ_'' @ str_nat chunk_idx @ ''_'' @ str_nat i"

text \<open>The loop \<open>for match in matches\<close> for one pattern of one requirement type.\<close>

fun match_loop ::
  "(string \<Rightarrow> 'h) \<Rightarrow> string \<Rightarrow> nat \<Rightarrow> string \<Rightarrow> (nat \<times> nat \<times> string option) list
     \<Rightarrow> requirement list \<times> 'h set \<Rightarrow> requirement list \<times> 'h set" where
  "match_loop h chunk_text chunk_idx ty [] st = st"
| "match_loop h chunk_text chunk_idx ty ((start, end', cap) # ms) (reqs, processed) =
     (let rid = (case cap of
                   Some g \<Rightarrow> if g \<noteq> [] then numbered_id ty g
                             else positional_id ty chunk_idx (length reqs)
                 | None \<Rightarrow> positional_id ty chunk_idx (length reqs));
          c = extract_requirement_content_enhanced chunk_text start end'
      in if content_hash h c \<in> processed
         then match_loop h chunk_text chunk_idx ty ms (reqs, processed)
         else match_loop h chunk_text chunk_idx ty ms
                (reqs @ [\<lparr>req_id = rid, req_type = ty, content = strip c,
                           chunk_index = chunk_idx, priority = determine_priority c,
                           category = categorize_requirement c,
                           validation_status = ''pending''\<rparr>],
                 insert (content_hash h c) processed))"

fun pattern_loop ::
  "(string \<Rightarrow> 'h) \<Rightarrow> string \<Rightarrow> nat \<Rightarrow> string \<Rightarrow> regex list
     \<Rightarrow> requirement list \<times> 'h set \<Rightarrow> requirement list \<times> 'h set" where
  "pattern_loop h chunk_text chunk_idx ty [] st = st"
| "pattern_loop h chunk_text chunk_idx ty (p # ps) st =
     pattern_loop h chunk_text chunk_idx ty ps (match_loop h chunk_text chunk_idx ty (finditer p chunk_text) st)"

fun type_loop ::
  "(string \<Rightarrow> 'h) \<Rightarrow> string \<Rightarrow> nat \<Rightarrow> (string \<times> regex list) list
     \<Rightarrow> requirement list \<times> 'h set \<Rightarrow> requirement list \<times> 'h set" where
  "type_loop h chunk_text chunk_idx [] st = st"
| "type_loop h chunk_text chunk_idx ((ty, ps) # rest) st =
     type_loop h chunk_text chunk_idx rest (pattern_loop h chunk_text chunk_idx ty ps st)"

text \<open>The generic fallback: one requirement per sentence longer than 60 characters.\<close>

fun generic_loop ::
  "(string \<Rightarrow> 'h) \<Rightarrow> nat \<Rightarrow> (nat \<times> string) list
     \<Rightarrow> requirement list \<times> 'h set \<Rightarrow> requirement list \<times> 'h set" where
  "generic_loop h chunk_idx [] st = st"
| "generic_loop h chunk_idx ((i, sentence) # rest) (reqs, processed) =
     (if length (strip sentence) > 60 \<and> content_hash h sentence \<notin> processed
      then generic_loop h chunk_idx rest
             (reqs @ [\<lparr>req_id = generic_id chunk_idx i, req_type = ''general'',
                        content = strip sentence, chunk_index = chunk_idx,
                        priority = ''medium'', category = ''general'',
                        validation_status = ''pending''\<rparr>],
              insert (content_hash h sentence) processed)
      else generic_loop h chunk_idx rest (reqs, processed))"

text \<open>
  \<open>_extract_requirements_from_chunk_enhanced\<close> returns the requirements of the chunk;
  the set \<open>processed_content\<close> it mutates is returned with them.
\<close>

definition extract_requirements_from_chunk_enhanced ::
  "(string \<Rightarrow> 'h) \<Rightarrow> string \<Rightarrow> nat \<Rightarrow> (string \<times> regex list) list \<Rightarrow> 'h set
     \<Rightarrow> requirement list \<times> 'h set" where
  "extract_requirements_from_chunk_enhanced h chunk_text chunk_idx patterns processed =
     (case type_loop h chunk_text chunk_idx patterns ([], processed) of
        (reqs, processed') \<Rightarrow>
          if reqs = []
          then generic_loop h chunk_idx (enumerate 0 (split_into_sentences chunk_text)) (reqs, processed')
          else (reqs, processed'))"

fun chunk_loop ::
  "(string \<Rightarrow> 'h) \<Rightarrow> (nat \<times> string) list \<Rightarrow> requirement list \<times> 'h set
     \<Rightarrow> requirement list \<times> 'h set" where
  "chunk_loop h [] st = st"
| "chunk_loop h ((chunk_idx, chunk_text) # rest) (reqs, processed) =
     (if length (strip chunk_text) < 50 then chunk_loop h rest (reqs, processed)
      else (case extract_requirements_from_chunk_enhanced h chunk_text chunk_idx enhanced_patterns processed of
              (extracted_reqs, processed') \<Rightarrow>
                chunk_loop h rest (reqs @ extracted_reqs, processed')))"

definition extract_requirements :: "(string \<Rightarrow> 'h) \<Rightarrow> string list \<Rightarrow> requirement list" where
  "extract_requirements h text_chunks =
     sort_key req_id (fst (chunk_loop h (enumerate 0 text_chunks) ([], {})))"

section \<open>Auxiliary definitions for the statements about the extractor\<close>

text \<open>
  The letters of ASCII on the bits of a character: the five low bits hold a value from 1
  to 26. Used to evaluate the character classes without arithmetic.
\<close>

definition letter_bits :: "bool \<Rightarrow> bool \<Rightarrow> bool \<Rightarrow> bool \<Rightarrow> bool \<Rightarrow> bool" where
  "letter_bits b0 b1 b2 b3 b4 =
     ((b0 \<or> b1 \<or> b2 \<or> b3 \<or> b4) \<and> \<not> (b4 \<and> b3 \<and> (b2 \<or> (b1 \<and> b0))))"

text \<open>
  An id has the pattern-numbered shape \<open>TYPE_<number>\<close> when it is the upper-cased name
  of a requirement type of \<open>enhanced_patterns\<close>, an underscore, and a non-empty text of
  digits and dots (what the group \<open>(\d+\.?\d*)\<close> captures).
\<close>

definition number_char :: "char \<Rightarrow> bool" where
  "number_char c = (is_digit c \<or> c = CHR ''.'')"

definition pattern_numbered :: "string \<Rightarrow> bool" where
  "pattern_numbered rid =
     list_ex (\<lambda>ty. let p = upper ty @ ''_''; g = drop (length p) rid
                   in take (length p) rid = p \<and> g \<noteq> [] \<and> list_all number_char g)
             (map fst enhanced_patterns)"

text \<open>The inverse of \<open>str_nat\<close>.\<close>

definition nat_of_str :: "string \<Rightarrow> nat" where
  "nat_of_str s = foldl (\<lambda>a c. 10 * a + (of_char c - 48)) 0 s"

text \<open>
  A regular expression that consumes digits and dots only, and one whose capturing
  groups all do.
\<close>

fun digits_only :: "regex \<Rightarrow> bool" where
  "digits_only (Lit l) = (l = ''.'')"
| "digits_only (Cls c) = (c = Digit)"
| "digits_only (Star c) = (c = Digit)"
| "digits_only (Seq a b) = (digits_only a \<and> digits_only b)"
| "digits_only (Alt a b) = (digits_only a \<and> digits_only b)"
| "digits_only (Opt a) = digits_only a"
| "digits_only (Grp a) = False"

fun groups_numeric :: "regex \<Rightarrow> bool" where
  "groups_numeric (Lit l) = True"
| "groups_numeric (Cls c) = True"
| "groups_numeric (Star c) = True"
| "groups_numeric (Seq a b) = (groups_numeric a \<and> groups_numeric b)"
| "groups_numeric (Alt a b) = (groups_numeric a \<and> groups_numeric b)"
| "groups_numeric (Opt a) = groups_numeric a"
| "groups_numeric (Grp a) = digits_only a"

definition cap_ok :: "string option \<Rightarrow> bool" where
  "cap_ok cap = (case cap of None \<Rightarrow> True | Some g \<Rightarrow> list_all number_char g)"

text \<open>
  The loop invariants of the extractor. In the list built for chunk \<open>c\<close> every id is
  pattern-numbered or ends in \<open>_<c>_<k>\<close> with \<open>k\<close> below the bound \<open>b\<close>, and the ids that are
  not pattern-numbered are pairwise distinct; in the list of the whole call the chunk
  number is below \<open>n\<close>.
\<close>

definition local_ids :: "nat \<Rightarrow> nat \<Rightarrow> requirement list \<Rightarrow> bool" where
  "local_ids c b rs =
     ((\<forall>r \<in> set rs. pattern_numbered (req_id r)
          \<or> (\<exists>ty k. k < b \<and> req_id r = ty @ ''_'' @ str_nat c @ ''_'' @ str_nat k))
      \<and> distinct (map req_id (filter (\<lambda>r. \<not> pattern_numbered (req_id r)) rs)))"

definition global_ids :: "nat \<Rightarrow> requirement list \<Rightarrow> bool" where
  "global_ids n rs =
     ((\<forall>r \<in> set rs. pattern_numbered (req_id r)
          \<or> (\<exists>ty c k. c < n \<and> req_id r = ty @ ''_'' @ str_nat c @ ''_'' @ str_nat k))
      \<and> distinct (map req_id (filter (\<lambda>r. \<not> pattern_numbered (req_id r)) rs)))"

text \<open>
  The fingerprint of a record, computed from its content as the extractor computes it
  from the candidate, and the invariant of the deduplication: the contents of the records
  emitted so far are pairwise distinct and their fingerprints are in
  \<open>processed_content\<close>.
\<close>

definition fingerprint :: "(string \<Rightarrow> 'h) \<Rightarrow> string \<Rightarrow> 'h" where
  "fingerprint h x = (if x \<noteq> [] then h (take 100 x) else h [])"

definition seen_ok :: "(string \<Rightarrow> 'h) \<Rightarrow> requirement list \<Rightarrow> 'h set \<Rightarrow> bool" where
  "seen_ok h rs P = (distinct (map content rs) \<and> (\<forall>r \<in> set rs. fingerprint h (content r) \<in> P))"

text \<open>
  Two chunks that both cite the requirement \<open>FR-1\<close>, and the records extracted from
  them.
\<close>

definition login_chunk :: string where
  "login_chunk = ''FR-1: users sign in with their user name and password''"

definition login_check_chunk :: string where
  "login_check_chunk = ''FR-1 is verified by signing in with a wrong password twice''"

definition login_req :: requirement where
  "login_req = \<lparr>req_id = ''FUNCTIONAL_1'', req_type = ''functional'',
     content = ''FR-1: users sign in with their user name and password'',
     chunk_index = 0, priority = ''medium'', category = ''authentication'',
     validation_status = ''pending''\<rparr>"

definition login_check_req :: requirement where
  "login_check_req = \<lparr>req_id = ''FUNCTIONAL_1'', req_type = ''functional'',
     content = ''FR-1 is verified by signing in with a wrong password twice'',
     chunk_index = 1, priority = ''medium'', category = ''authentication'',
     validation_status = ''pending''\<rparr>"

text \<open>
  A chunk of one sentence that matches the pattern \<open>the system shall\<close> without a number,
  the record of the pattern match (its content is the sentence joined with the empty
  text after the full stop, trimmed), and the record of the generic fallback (the
  sentence as \<open>_split_into_sentences\<close> returns it, without the full stop).
\<close>

definition shall_chunk :: string where
  "shall_chunk = ''The system shall let every user sign in with a user name and key.''"

definition shall_req :: requirement where
  "shall_req = \<lparr>req_id = ''FUNCTIONAL_0_0'', req_type = ''functional'',
     content = ''The system shall let every user sign in with a user name and key.'',
     chunk_index = 0, priority = ''high'', category = ''general'',
     validation_status = ''pending''\<rparr>"

definition shall_sentence_req :: requirement where
  "shall_sentence_req = \<lparr>req_id = ''REQ_1_0'', req_type = ''general'',
     content = ''The system shall let every user sign in with a user name and key'',
     chunk_index = 1, priority = ''medium'', category = ''general'',
     validation_status = ''pending''\<rparr>"

section \<open>The character classes on the bits of a character\<close>

text \<open>
  The classes and the case mappings, stated on the eight bits of the character. They
  serve as code equations: the examples below are evaluated with them.
\<close>

lemma lower_char_code [code]:
  "lower_char (Char b0 b1 b2 b3 b4 b5 b6 b7) =
     (if \<not> b7 \<and> b6 \<and> \<not> b5 \<and> letter_bits b0 b1 b2 b3 b4
      then Char b0 b1 b2 b3 b4 True b6 b7 else Char b0 b1 b2 b3 b4 b5 b6 b7)"
  by (cases b0; cases b1; cases b2; cases b3; cases b4; cases b5; cases b6; cases b7;
      simp add: lower_char_def letter_bits_def char_of_def bit_0)

lemma upper_char_code [code]:
  "upper_char (Char b0 b1 b2 b3 b4 b5 b6 b7) =
     (if \<not> b7 \<and> b6 \<and> b5 \<and> letter_bits b0 b1 b2 b3 b4
      then Char b0 b1 b2 b3 b4 False b6 b7 else Char b0 b1 b2 b3 b4 b5 b6 b7)"
  by (cases b0; cases b1; cases b2; cases b3; cases b4; cases b5; cases b6; cases b7;
      simp add: upper_char_def letter_bits_def char_of_def bit_0)

lemma is_digit_code [code]:
  "is_digit (Char b0 b1 b2 b3 b4 b5 b6 b7) =
     (\<not> b7 \<and> \<not> b6 \<and> b5 \<and> b4 \<and> (\<not> b3 \<or> (\<not> b2 \<and> \<not> b1)))"
  by (cases b0; cases b1; cases b2; cases b3; cases b4; cases b5; cases b6; cases b7;
      simp add: is_digit_def)

lemma is_space_code [code]:
  "is_space (Char b0 b1 b2 b3 b4 b5 b6 b7) =
     (\<not> b7 \<and> \<not> b6 \<and>
      ((\<not> b5 \<and> \<not> b4 \<and> b3 \<and> ((\<not> b2 \<and> (b1 \<or> b0)) \<or> (b2 \<and> \<not> b1)))
       \<or> (\<not> b5 \<and> b4 \<and> b3 \<and> b2)
       \<or> (b5 \<and> \<not> b4 \<and> \<not> b3 \<and> \<not> b2 \<and> \<not> b1 \<and> \<not> b0)))"
  by (cases b0; cases b1; cases b2; cases b3; cases b4; cases b5; cases b6; cases b7;
      simp add: is_space_def)

lemma is_word_char_code [code]:
  "is_word_char (Char b0 b1 b2 b3 b4 b5 b6 b7) =
     (\<not> b7 \<and>
      ((\<not> b6 \<and> b5 \<and> b4 \<and> (\<not> b3 \<or> (\<not> b2 \<and> \<not> b1)))
       \<or> (b6 \<and> letter_bits b0 b1 b2 b3 b4)
       \<or> (b6 \<and> \<not> b5 \<and> b4 \<and> b3 \<and> b2 \<and> b1 \<and> b0)))"
  by (cases b0; cases b1; cases b2; cases b3; cases b4; cases b5; cases b6; cases b7;
      simp add: is_word_char_def letter_bits_def)

section \<open>Properties of the lexical index\<close>

text \<open>
  C7. \<open>build_index\<close> on an empty chunk sequence fails with a \<open>ValueError\<close> carrying a
  message, \<open>search\<close> on the index that was never built fails with a \<open>ValueError\<close>
  carrying a message, and \<open>get_similarity_scores\<close> on an index without chunks returns
  the empty list.
\<close>

theorem lexical_index_error_contract:
  "build_index chunks [] = Inl (ValueError ''No text chunks provided'')
   \<and> search [] q k = Inl (ValueError ''Index not built yet. Please upload a document first.'')
   \<and> get_similarity_scores [] q' k' = []"
  by (simp add: build_index_def search_def get_similarity_scores_def)

theorem lexical_index_error_contract_witness:
  "build_index [] [] = Inl (ValueError ''No text chunks provided'')
   \<and> search [] ''login'' 3 = Inl (ValueError ''Index not built yet. Please upload a document first.'')
   \<and> get_similarity_scores [] ''login'' 10 = []"
  using lexical_index_error_contract [of "[]" "''login''" 3 "''login''" 10]
  by (simp add: search_def get_similarity_scores_def)


lemma jaccard_self: "finite a \<Longrightarrow> a \<noteq> {} \<Longrightarrow> jaccard_similarity a a = 1"
  by (simp add: jaccard_similarity_def)

lemma jaccard_sym: "jaccard_similarity a b = jaccard_similarity b a"
  by (simp add: jaccard_similarity_def Int_commute Un_commute)












text \<open>
  C8. The Jaccard similarity of a non-empty (finite) token set with itself is 1, and the
  similarity is symmetric in its two arguments.
\<close>

theorem jaccard_reflexive_symmetric:
  "(finite a \<and> a \<noteq> {} \<longrightarrow> jaccard_similarity a a = 1)
   \<and> jaccard_similarity a b = jaccard_similarity b a"
  using jaccard_self [of a] jaccard_sym [of a b] by blast

theorem jaccard_reflexive_symmetric_witness:
  "finite (word_set ''User Login'') \<and> word_set ''User Login'' \<noteq> {}
   \<and> jaccard_similarity (word_set ''User Login'') (word_set ''User Login'') = 1
   \<and> jaccard_similarity (word_set ''User Login'') (word_set ''login page'') = 1 / 3
   \<and> jaccard_similarity (word_set ''login page'') (word_set ''User Login'') = 1 / 3"
proof -
  have f: "finite (word_set ''User Login'')" by (simp add: word_set_def)
  have n: "word_set ''User Login'' \<noteq> {}" by code_simp
  have v: "jaccard_similarity (word_set ''User Login'') (word_set ''login page'') = 1 / 3"
    by code_simp
  show ?thesis
    using f n v jaccard_reflexive_symmetric [of "word_set ''User Login''" "word_set ''login page''"]
    by simp
qed




section \<open>Properties of the mapper\<close>







lemma find_matching_requirements_eq:
  "find_matching_requirements chunks tc reqs =
     Inr (if reqs = [] \<or> test_content tc = [] then [] else ranked_matches chunks tc reqs)"
  by (simp add: find_matching_requirements_def try_retrieval_def ranked_matches_def)










lemma map_valid_test_cases_eq:
  "map_valid_test_cases chunks now tcs reqs =
     Inr (map (\<lambda>tc. let mapped = (if reqs = [] \<or> test_content tc = [] then []
                                    else ranked_matches chunks tc reqs)
                      in \<lparr>test_case_id = tc_id tc, test_case_title = tc_title tc,
                          mapped_requirements = mapped,
                          mapping_confidence = calculate_mapping_confidence tc mapped reqs,
                          mapping_method = ''semantic_similarity'',
                          mapping_date = now\<rparr>) tcs)"
  by (induction tcs) (simp_all add: find_matching_requirements_eq Let_def)

lemma ranked_matches_no_chunks: "ranked_matches [] tc reqs = []"
  by (simp add: ranked_matches_def get_similarity_scores_def unique_matches_def sort_desc_def)

lemma example_map:
  "map_test_cases_to_requirements [''user login page''] ''t'' [TcDict example_tc, TcOther] [example_req]
     = Inr [example_result [\<lparr>requirement_id = ''FUNCTIONAL_0_0'', similarity_score = 2 / 3,
                               match_content = ''user login page''\<rparr>] (867 / 1000)]"
  by code_simp

lemma example_keyword:
  "keyword_based_matching example_tc [example_req]
     = Inr [\<lparr>requirement_id = ''FUNCTIONAL_0_0'', similarity_score = 2 / 3,
              match_content = ''user login page''\<rparr>]"
  by code_simp

lemma example_no_chunks:
  "map_test_cases_to_requirements [] ''t'' [TcDict example_tc, TcOther] [example_req]
     = Inr [example_result [] 0]"
  by code_simp

lemma example_content: "test_content example_tc = ''User login''"
  by code_simp

lemma example_retrieval:
  "try_retrieval [''user login page''] (test_content example_tc) [example_req]
     = Inr [\<lparr>requirement_id = ''FUNCTIONAL_0_0'', similarity_score = 2 / 3,
              match_content = ''user login page''\<rparr>]"
  by code_simp



text \<open>
  C1, as the code has it. Every mapping result carries the method
  \<open>semantic_similarity\<close>, whichever path produced its matches.
\<close>

theorem mapping_method_constant:
  "\<exists>rs. map_test_cases_to_requirements chunks now tcs reqs = Inr rs
      \<and> (\<forall>r \<in> set rs. mapping_method r = ''semantic_similarity'')"
  by (auto simp: map_test_cases_to_requirements_def map_valid_test_cases_eq Let_def)

theorem mapping_method_constant_witness:
  "map_test_cases_to_requirements [] ''t'' [TcDict example_tc, TcOther] [example_req]
     = Inr [example_result [] 0]
   \<and> mapping_method (example_result [] 0) = ''semantic_similarity''"
proof -
  obtain rs where rs: "map_test_cases_to_requirements [] ''t''
                          [TcDict example_tc, TcOther] [example_req] = Inr rs"
    and each: "\<forall>r \<in> set rs. mapping_method r = ''semantic_similarity''"
    using mapping_method_constant [of "[]" "''t''" "[TcDict example_tc, TcOther]" "[example_req]"]
    by blast
  have "rs = [example_result [] 0]" using rs example_no_chunks by simp
  then have "mapping_method (example_result [] 0) = ''semantic_similarity''" using each by simp
  then show ?thesis using example_no_chunks by simp
qed

text \<open>
  The claim C1 as written fails: the retrieval path produces the match of this test
  case, and the method of the result is neither \<open>retrieval\<close> nor \<open>keyword_fallback\<close>.
\<close>

theorem mapping_method_counterexample:
  "try_retrieval [''user login page''] (test_content example_tc) [example_req]
     = Inr [\<lparr>requirement_id = ''FUNCTIONAL_0_0'', similarity_score = 2 / 3,
              match_content = ''user login page''\<rparr>]
   \<and> map_test_cases_to_requirements [''user login page''] ''t'' [TcDict example_tc, TcOther] [example_req]
     = Inr [example_result [\<lparr>requirement_id = ''FUNCTIONAL_0_0'', similarity_score = 2 / 3,
                               match_content = ''user login page''\<rparr>] (867 / 1000)]
   \<and> mapping_method (example_result [\<lparr>requirement_id = ''FUNCTIONAL_0_0'', similarity_score = 2 / 3,
                               match_content = ''user login page''\<rparr>] (867 / 1000)) \<noteq> ''retrieval''
   \<and> mapping_method (example_result [\<lparr>requirement_id = ''FUNCTIONAL_0_0'', similarity_score = 2 / 3,
                               match_content = ''user login page''\<rparr>] (867 / 1000)) \<noteq> ''keyword_fallback''"
  using example_retrieval example_map by (simp add: example_result_def)

text \<open>
  C10. When the index holds no chunks, the body of the \<open>try\<close> returns no match without
  raising, so the keyword fallback is not entered: every well-formed test case gets an
  empty match list and confidence 0, whatever the requirements are.
\<close>

theorem no_chunks_no_matches:
  "try_retrieval [] txt reqs = Inr []
   \<and> find_matching_requirements [] tc reqs = Inr []
   \<and> calculate_mapping_confidence tc [] reqs = 0
   \<and> map_test_cases_to_requirements [] now tcs reqs
       = Inr (map (\<lambda>tc. \<lparr>test_case_id = tc_id tc, test_case_title = tc_title tc,
                          mapped_requirements = [], mapping_confidence = 0,
                          mapping_method = ''semantic_similarity'', mapping_date = now\<rparr>)
                  (valid_test_cases tcs))"
  by (simp add: try_retrieval_def get_similarity_scores_def find_matching_requirements_eq
      ranked_matches_no_chunks calculate_mapping_confidence_def
      map_test_cases_to_requirements_def map_valid_test_cases_eq)

theorem no_chunks_no_matches_witness:
  "test_content example_tc = ''User login''
   \<and> try_retrieval [] (test_content example_tc) [example_req] = Inr []
   \<and> find_matching_requirements [] example_tc [example_req] = Inr []
   \<and> calculate_mapping_confidence example_tc [] [example_req] = 0
   \<and> map_test_cases_to_requirements [] ''t'' [TcDict example_tc, TcOther] [example_req]
       = Inr [example_result [] 0]
   \<and> keyword_based_matching example_tc [example_req]
       = Inr [\<lparr>requirement_id = ''FUNCTIONAL_0_0'', similarity_score = 2 / 3,
                match_content = ''user login page''\<rparr>]"
proof -
  note t = no_chunks_no_matches [of "test_content example_tc" "[example_req]" example_tc
                                    "''t''" "[TcDict example_tc, TcOther]"]
  show ?thesis
    using t [THEN conjunct1] t [THEN conjunct2, THEN conjunct1]
          t [THEN conjunct2, THEN conjunct2, THEN conjunct1]
          example_content example_no_chunks example_keyword
    by blast
qed

section \<open>Properties of the traceability matrix\<close>


lemma overlap_loop_set:
  "set (overlap_loop tk reqs acc) \<subseteq> set acc \<union> req_id ` set reqs"
  by (induction tk reqs acc rule: overlap_loop.induct) (auto simp: Let_def split: if_splits)

lemma find_mapped_requirements_set:
  "find_mapped_requirements tc reqs = Inr ids \<Longrightarrow>
     set ids \<subseteq> req_id ` set reqs \<union> {e. tc_requirement_id tc = Some e \<and> e \<noteq> []}"
  using overlap_loop_set
  by (fastforce simp: find_mapped_requirements_def Let_def split: sum.splits option.splits if_splits)

lemma append_mapping_keys: "fst ` set (append_mapping k v maps) = insert k (fst ` set maps)"
  by (induction k v maps rule: append_mapping.induct) auto

lemma append_mapping_nonempty:
  "\<forall>(k', vs) \<in> set maps. vs \<noteq> [] \<Longrightarrow> \<forall>(k', vs) \<in> set (append_mapping k v maps). vs \<noteq> []"
  by (induction k v maps rule: append_mapping.induct) auto

lemma append_mapping_distinct:
  "distinct (map fst maps) \<Longrightarrow> distinct (map fst (append_mapping k v maps))"
proof (induction k v maps rule: append_mapping.induct)
  case (1 k v) then show ?case by simp
next
  case (2 k v k' vs rest)
  then show ?case using append_mapping_keys [of k v rest] by (auto simp: image_iff)
qed

lemma mark_covered_ids: "map mr_id (mark_covered k es) = map mr_id es"
  by (induction k es rule: mark_covered.induct) auto

lemma mark_covered_flags:
  "distinct (map mr_id es) \<Longrightarrow>
     map covered (mark_covered k es) = map (\<lambda>e. covered e \<or> mr_id e = k) es"
proof (induction k es rule: mark_covered.induct)
  case (1 k) then show ?case by simp
next
  case (2 k e es)
  show ?case
  proof (cases "mr_id e = k")
    case True
    have "mr_id e \<notin> mr_id ` set es" using 2(2) by simp
    then have "\<forall>x \<in> set es. mr_id x \<noteq> k" using True by (auto simp: image_iff)
    then have "map covered es = map (\<lambda>e. covered e \<or> mr_id e = k) es" by simp
    then show ?thesis using True by simp
  next
    case False
    then show ?thesis using 2 by simp
  qed
qed

lemma update_coverage_props:
  "update_coverage tid ks (entries, maps) = (entries', maps') \<Longrightarrow>
     map mr_id entries' = map mr_id entries
   \<and> fst ` set maps' = fst ` set maps \<union> set ks
   \<and> (distinct (map mr_id entries) \<longrightarrow> coverage_inv entries maps \<longrightarrow> coverage_inv entries' maps')"
proof (induction tid ks "(entries, maps)" arbitrary: entries maps rule: update_coverage.induct)
  case (1 tid entries maps)
  then show ?case by simp
next
  case (2 tid k ks entries maps)
  let ?e = "mark_covered k entries" and ?m = "append_mapping k tid maps"
  have rec: "update_coverage tid ks (?e, ?m) = (entries', maps')" using 2(2) by simp
  note ih = 2(1) [OF rec]
  have ids: "map mr_id ?e = map mr_id entries" by (rule mark_covered_ids)
  have keys: "fst ` set ?m = insert k (fst ` set maps)" by (rule append_mapping_keys)
  have step: "distinct (map mr_id entries) \<Longrightarrow> coverage_inv entries maps \<Longrightarrow> coverage_inv ?e ?m"
  proof -
    assume d: "distinct (map mr_id entries)" and inv: "coverage_inv entries maps"
    have a: "\<forall>(k', vs) \<in> set ?m. vs \<noteq> []"
      using inv append_mapping_nonempty unfolding coverage_inv_def by blast
    have b: "distinct (map fst ?m)"
      using inv append_mapping_distinct unfolding coverage_inv_def by blast
    have c0: "map covered entries = map (\<lambda>e. mr_id e \<in> fst ` set maps) entries"
      using inv unfolding coverage_inv_def by blast
    have "map covered ?e = map (\<lambda>e. covered e \<or> mr_id e = k) entries"
      using mark_covered_flags [OF d] .
    also have "\<dots> = map (\<lambda>e. mr_id e \<in> fst ` set ?m) entries"
      using c0 unfolding keys by (auto simp: map_eq_conv)
    also have "\<dots> = map (\<lambda>i. i \<in> fst ` set ?m) (map mr_id entries)" by (simp add: comp_def)
    also have "\<dots> = map (\<lambda>i. i \<in> fst ` set ?m) (map mr_id ?e)" by (simp only: ids)
    also have "\<dots> = map (\<lambda>e. mr_id e \<in> fst ` set ?m) ?e" by (simp add: comp_def)
    finally show "coverage_inv ?e ?m" using a b unfolding coverage_inv_def by blast
  qed
  show ?case using ih ids keys step by auto
qed


lemma process_test_cases_props:
  "process_test_cases reqs tcs (entries, maps, tces) = Inr (entries', maps', tces') \<Longrightarrow>
     map mr_id entries' = map mr_id entries
   \<and> fst ` set maps' \<subseteq> fst ` set maps \<union> req_id ` set reqs
         \<union> {e. \<exists>tc \<in> set tcs. tc_requirement_id tc = Some e \<and> e \<noteq> []}
   \<and> (distinct (map mr_id entries) \<longrightarrow> coverage_inv entries maps \<longrightarrow> coverage_inv entries' maps')"
proof (induction reqs tcs "(entries, maps, tces)" arbitrary: entries maps tces
       rule: process_test_cases.induct)
  case (1 reqs)
  then show ?case by simp
next
  case (2 reqs tc tcs entries maps tces)
  from 2(2) obtain ids where ids: "find_mapped_requirements tc reqs = Inr ids"
    by (auto split: sum.splits)
  obtain e1 m1 where upd: "update_coverage (tc_id tc) ids (entries, maps) = (e1, m1)"
    by (cases "update_coverage (tc_id tc) ids (entries, maps)") auto
  have rec: "process_test_cases reqs tcs (e1, m1, tces @ [tc_entry_of tc ids]) = Inr (entries', maps', tces')"
    using 2(2) ids upd by simp
  note ih = 2(1) [OF ids upd [symmetric] rec]
  note up = update_coverage_props [OF upd]
  note fm = find_mapped_requirements_set [OF ids]
  have a: "map mr_id entries' = map mr_id entries" using ih up by simp
  have b: "fst ` set maps' \<subseteq> fst ` set maps \<union> req_id ` set reqs
         \<union> {e. \<exists>tc \<in> set (tc # tcs). tc_requirement_id tc = Some e \<and> e \<noteq> []}"
    using ih up fm by auto
  have c: "distinct (map mr_id entries) \<longrightarrow> coverage_inv entries maps \<longrightarrow> coverage_inv entries' maps'"
    using ih up by simp
  show ?case using a b c by blast
qed

lemma coverage_inv_init: "coverage_inv (map req_entry reqs) []"
  by (simp add: coverage_inv_def req_entry_def)

lemma coverage_inv_map_of:
  assumes "coverage_inv entries maps" "e \<in> set entries"
  shows "covered e = (\<exists>tids. map_of maps (mr_id e) = Some tids \<and> tids \<noteq> [])"
proof -
  have c: "covered e = (mr_id e \<in> fst ` set maps)"
    using assms unfolding coverage_inv_def by (auto simp: map_eq_conv)
  have ne: "\<forall>(k, vs) \<in> set maps. vs \<noteq> []" using assms(1) unfolding coverage_inv_def by blast
  show ?thesis
  proof (cases "mr_id e \<in> fst ` set maps")
    case True
    then obtain tids where t: "map_of maps (mr_id e) = Some tids"
      by (metis domD dom_map_of_conv_image_fst)
    then have "(mr_id e, tids) \<in> set maps" by (rule map_of_SomeD)
    then have "tids \<noteq> []" using ne by auto
    then show ?thesis using c True t by simp
  next
    case False
    then have "map_of maps (mr_id e) = None" by (simp add: map_of_eq_None_iff)
    then show ?thesis using c False by simp
  qed
qed



lemma example_generate:
  "generate_matrix ''t'' [example_req, other_req] [example_tc, stale_tc] = Inr example_matrix"
  by code_simp

lemma stale_generate: "generate_matrix ''t'' [example_req] [stale_tc] = Inr stale_matrix"
  by code_simp


text \<open>
  With two requirements of the same id only the first entry is marked: the second stays
  uncovered although \<open>mappings\<close> holds its id.
\<close>

lemma duplicate_id_second_entry_uncovered:
  "generate_matrix ''t'' [example_req, example_req] [example_tc] =
     Inr \<lparr>requirements =
            [\<lparr>mr_id = ''FUNCTIONAL_0_0'', mr_type = ''functional'', mr_priority = ''medium'',
              mr_category = ''authentication'', mr_content = ''user login page'', covered = True,
              test_case_count = 1\<rparr>,
             \<lparr>mr_id = ''FUNCTIONAL_0_0'', mr_type = ''functional'', mr_priority = ''medium'',
              mr_category = ''authentication'', mr_content = ''user login page'', covered = False,
              test_case_count = 0\<rparr>],
          test_cases =
            [\<lparr>mt_id = ''TC_001'', mt_title = PStr ''User login'', mt_type = ''Functional'',
              mt_priority = ''Medium'', mt_status = ''Generated'',
              requirement_mappings = [''FUNCTIONAL_0_0'']\<rparr>],
          mappings = [(''FUNCTIONAL_0_0'', [Some ''TC_001''])],
          metadata = \<lparr>generation_date = ''t'', total_requirements = 2, total_test_cases = 1\<rparr>\<rparr>"
  by code_simp

text \<open>
  C3, as the code has it. In the matrix returned by \<open>generate_matrix\<close> every key of
  \<open>mappings\<close> is the id of a requirement of the input list or the non-empty explicit
  \<open>requirement_id\<close> of a test case; the entries keep the ids of the input requirements;
  and when these ids are pairwise distinct, an entry is covered exactly when \<open>mappings\<close>
  holds a non-empty list under its id.
\<close>

theorem matrix_mappings_coverage:
  "generate_matrix now reqs tcs = Inr m \<Longrightarrow>
     fst ` set (mappings m)
       \<subseteq> req_id ` set reqs \<union> {e. \<exists>tc \<in> set tcs. tc_requirement_id tc = Some e \<and> e \<noteq> []}
   \<and> map mr_id (requirements m) = map req_id reqs
   \<and> (distinct (map req_id reqs) \<longrightarrow>
        (\<forall>e \<in> set (requirements m).
           covered e = (\<exists>tids. map_of (mappings m) (mr_id e) = Some tids \<and> tids \<noteq> [])))"
proof -
  assume g: "generate_matrix now reqs tcs = Inr m"
  then obtain entries maps tces where
    p: "process_test_cases reqs tcs (map req_entry reqs, [], []) = Inr (entries, maps, tces)"
    and m: "requirements m = entries" "mappings m = maps"
    by (auto simp: generate_matrix_def split: sum.splits prod.splits)
  note pp = process_test_cases_props [OF p]
  have ids0: "map mr_id (map req_entry reqs) = map req_id reqs"
    by (simp add: req_entry_def comp_def)
  have a: "fst ` set maps
       \<subseteq> req_id ` set reqs \<union> {e. \<exists>tc \<in> set tcs. tc_requirement_id tc = Some e \<and> e \<noteq> []}"
    using pp by simp
  have b: "map mr_id entries = map req_id reqs" using pp ids0 by simp
  have c: "distinct (map req_id reqs) \<longrightarrow>
        (\<forall>e \<in> set entries.
           covered e = (\<exists>tids. map_of maps (mr_id e) = Some tids \<and> tids \<noteq> []))"
  proof (intro impI ballI)
    fix e assume d: "distinct (map req_id reqs)" and e: "e \<in> set entries"
    have d0: "distinct (map mr_id (map req_entry reqs))" using d by (simp only: ids0)
    have "coverage_inv entries maps"
      using pp [THEN conjunct2, THEN conjunct2] d0 coverage_inv_init [of reqs] by blast
    then show "covered e = (\<exists>tids. map_of maps (mr_id e) = Some tids \<and> tids \<noteq> [])"
      using e by (rule coverage_inv_map_of)
  qed
  show ?thesis using a b c unfolding m by blast
qed

theorem matrix_mappings_coverage_witness:
  "generate_matrix ''t'' [example_req, other_req] [example_tc, stale_tc] = Inr example_matrix
   \<and> distinct (map req_id [example_req, other_req])
   \<and> map mr_id (requirements example_matrix) = map req_id [example_req, other_req]
   \<and> map covered (requirements example_matrix) = [True, False]
   \<and> map_of (mappings example_matrix) ''FUNCTIONAL_0_0'' = Some [Some ''TC_001'']
   \<and> map_of (mappings example_matrix) ''FUNCTIONAL_1'' = None"
proof -
  have d: "distinct (map req_id [example_req, other_req])"
    by (simp add: example_req_def other_req_def)
  note t = matrix_mappings_coverage [OF example_generate]
  have c: "map covered (requirements example_matrix) = [True, False]"
    by (simp add: example_matrix_def)
  have m1: "map_of (mappings example_matrix) ''FUNCTIONAL_0_0'' = Some [Some ''TC_001'']"
    by (simp add: example_matrix_def)
  have m2: "map_of (mappings example_matrix) ''FUNCTIONAL_1'' = None"
    by (simp add: example_matrix_def)
  show ?thesis
    using example_generate d t [THEN conjunct2, THEN conjunct1] c m1 m2
    by blast
qed

text \<open>
  The claim C3 as written fails: the explicit \<open>requirement_id\<close> of this test case names
  no requirement of the list, and it becomes a key of \<open>mappings\<close>.
\<close>

theorem matrix_mappings_counterexample:
  "generate_matrix ''t'' [example_req] [stale_tc] = Inr stale_matrix
   \<and> ''REQ_001'' \<in> fst ` set (mappings stale_matrix)
   \<and> ''REQ_001'' \<notin> req_id ` set [example_req]"
  using stale_generate by (simp add: stale_matrix_def example_req_def)



lemma example_coverage_percentage:
  "map_option (\<lambda>st. coverage_percentage (overall_coverage st))
     (calculate_coverage_stats (Some example_matrix)) = Some 50"
  by code_simp

section \<open>Properties of the extractor\<close>

subsection \<open>The decimal numerals and the shape of the ids\<close>

declare str_nat.simps [simp del]

lemma is_digit_not_underscore: "is_digit c \<Longrightarrow> c \<noteq> CHR ''_''"
  by (auto simp: is_digit_def)

lemma digit_char_is_digit: "d < 10 \<Longrightarrow> is_digit (digit_char d)"
  by (simp add: is_digit_def digit_char_def)

lemma of_char_digit_char: "d < 10 \<Longrightarrow> of_char (digit_char d) = 48 + d"
  by (simp add: digit_char_def)

lemma str_nat_digits: "list_all is_digit (str_nat n)"
proof (induction n rule: str_nat.induct)
  case (1 n)
  show ?case
  proof (cases "n < 10")
    case True
    then show ?thesis by (simp add: str_nat.simps [of n] digit_char_is_digit)
  next
    case False
    then show ?thesis using 1 by (simp add: str_nat.simps [of n] digit_char_is_digit)
  qed
qed

lemma str_nat_no_underscore: "CHR ''_'' \<notin> set (str_nat n)"
  using str_nat_digits [of n] is_digit_not_underscore by (auto simp: list_all_iff)

lemma nat_of_str_nat: "nat_of_str (str_nat n) = n"
proof (induction n rule: str_nat.induct)
  case (1 n)
  show ?case
  proof (cases "n < 10")
    case True
    then show ?thesis by (simp add: str_nat.simps [of n] nat_of_str_def of_char_digit_char)
  next
    case False
    then have "nat_of_str (str_nat (n div 10)) = n div 10" using 1 by simp
    then show ?thesis using False
      by (simp add: str_nat.simps [of n] nat_of_str_def of_char_digit_char)
  qed
qed

lemma str_nat_inj: "str_nat m = str_nat n \<Longrightarrow> m = n"
  by (metis nat_of_str_nat)

lemma seg_eq:
  assumes "CHR ''_'' \<notin> set b" "CHR ''_'' \<notin> set b'" "x @ ''_'' @ b = x' @ ''_'' @ b'"
  shows "x = x' \<and> b = b'"
proof -
  let ?P = "\<lambda>c. c \<noteq> CHR ''_''"
  have "rev (x @ ''_'' @ b) = rev (x' @ ''_'' @ b')" using assms(3) by simp
  then have e: "rev b @ CHR ''_'' # rev x = rev b' @ CHR ''_'' # rev x'" by simp
  have "takeWhile ?P (rev b @ CHR ''_'' # rev x) = rev b"
    using assms(1) by (subst takeWhile_append2) auto
  moreover have "takeWhile ?P (rev b' @ CHR ''_'' # rev x') = rev b'"
    using assms(2) by (subst takeWhile_append2) auto
  ultimately have "rev b = rev b'" using e by simp
  then have b: "b = b'" by simp
  then show ?thesis using assms(3) by simp
qed

lemma positional_inj:
  assumes "x @ ''_'' @ str_nat c @ ''_'' @ str_nat k = x' @ ''_'' @ str_nat c' @ ''_'' @ str_nat k'"
  shows "c = c' \<and> k = k'"
proof -
  have "(x @ ''_'' @ str_nat c) @ ''_'' @ str_nat k = (x' @ ''_'' @ str_nat c') @ ''_'' @ str_nat k'"
    using assms by simp
  then have a: "x @ ''_'' @ str_nat c = x' @ ''_'' @ str_nat c'" and k: "str_nat k = str_nat k'"
    using seg_eq [OF str_nat_no_underscore str_nat_no_underscore] by blast+
  have "str_nat c = str_nat c'"
    using seg_eq [OF str_nat_no_underscore str_nat_no_underscore a] by simp
  then show ?thesis using k str_nat_inj by blast
qed

subsection \<open>What the capturing group matches\<close>

lemma lower_char_dot: "lower_char c = CHR ''.'' \<Longrightarrow> c = CHR ''.''"
  by (cases c) (auto simp: lower_char_code split: if_splits)

lemma take_takeWhile_all:
  assumes "n \<le> length (takeWhile P s)"
  shows "list_all P (take n s)"
proof -
  have "take n s = take n (takeWhile P s @ dropWhile P s)" by simp
  also have "\<dots> = take n (takeWhile P s)" using assms by (simp only: take_append) simp
  finally have "set (take n s) \<subseteq> set (takeWhile P s)" by (simp add: set_take_subset)
  then show ?thesis by (auto simp: list_all_iff dest: set_takeWhileD)
qed

lemma rmatch_SeqE:
  "(s', cap') \<in> set (rmatch (Seq a b) s cap) \<Longrightarrow>
     \<exists>s1 c1. (s1, c1) \<in> set (rmatch a s cap) \<and> (s', cap') \<in> set (rmatch b s1 c1)"
  by (simp only: rmatch.simps set_concat set_map) (clarsimp, blast)

lemma rmatch_StarE:
  "(s', cap') \<in> set (rmatch (Star c) s cap) \<Longrightarrow>
     \<exists>n. n \<le> length (takeWhile (in_class c) s) \<and> s' = drop n s \<and> cap' = cap"
  by (simp only: rmatch.simps set_map set_rev set_upt) (auto simp: less_Suc_eq_le)

lemma rmatch_GrpE:
  "(s', cap') \<in> set (rmatch (Grp a) s cap) \<Longrightarrow>
     \<exists>c''. (s', c'') \<in> set (rmatch a s cap) \<and> cap' = Some (take (length s - length s') s)"
  by (simp only: rmatch.simps set_map) (clarsimp, blast)

lemma rmatch_digits_only:
  "digits_only r \<Longrightarrow> (s', cap') \<in> set (rmatch r s cap)
     \<Longrightarrow> \<exists>pre. s = pre @ s' \<and> list_all number_char pre"
proof (induction r arbitrary: s cap s' cap')
  case (Lit l)
  then have l: "l = ''.''" by simp
  from Lit(2) obtain x xs where s: "s = x # xs" and x: "lower_char x = lower_char CHR ''.''"
    and s': "s' = xs"
    unfolding l by (cases s) (auto simp: lower_def split: if_splits)
  have "lower_char CHR ''.'' = CHR ''.''" by code_simp
  then have "x = CHR ''.''" using x lower_char_dot by simp
  then show ?case using s s' by (intro exI [of _ "[x]"]) (simp add: number_char_def)
next
  case (Cls c)
  then have c: "c = Digit" by simp
  from Cls(2) obtain x where "s = x # s'" "is_digit x"
    unfolding c by (cases s) (auto split: if_splits)
  then show ?case by (intro exI [of _ "[x]"]) (simp add: number_char_def)
next
  case (Star c)
  then have c: "c = Digit" by simp
  have ic: "in_class Digit = is_digit" by (rule ext) simp
  from rmatch_StarE [OF Star(2)] obtain n where
    n: "n \<le> length (takeWhile is_digit s)" and s': "s' = drop n s"
    unfolding c ic by blast
  have "list_all is_digit (take n s)" using n by (rule take_takeWhile_all)
  then have "list_all number_char (take n s)" by (auto simp: list_all_iff number_char_def)
  then show ?case using s' by (intro exI [of _ "take n s"]) simp
next
  case (Seq a b)
  from rmatch_SeqE [OF Seq(4)] obtain s1 c1 where a: "(s1, c1) \<in> set (rmatch a s cap)"
    and b: "(s', cap') \<in> set (rmatch b s1 c1)" by blast
  have da: "digits_only a" and db: "digits_only b" using Seq(3) by simp_all
  from Seq(1) [OF da a] obtain p1 where p1: "s = p1 @ s1" "list_all number_char p1" by blast
  from Seq(2) [OF db b] obtain p2 where p2: "s1 = p2 @ s'" "list_all number_char p2" by blast
  show ?case using p1 p2 by (intro exI [of _ "p1 @ p2"]) simp
next
  case (Alt a b)
  have da: "digits_only a" and db: "digits_only b" using Alt(3) by simp_all
  from Alt(4) have "(s', cap') \<in> set (rmatch a s cap) \<or> (s', cap') \<in> set (rmatch b s cap)"
    by simp
  then show ?case using Alt(1) [OF da] Alt(2) [OF db] by blast
next
  case (Opt a)
  have da: "digits_only a" using Opt(2) by simp
  from Opt(3) have "(s', cap') \<in> set (rmatch a s cap) \<or> s' = s" by auto
  then show ?case
  proof
    assume "(s', cap') \<in> set (rmatch a s cap)"
    then show ?thesis by (rule Opt(1) [OF da])
  next
    assume "s' = s"
    then show ?thesis by (intro exI [of _ "[]"]) simp
  qed
next
  case (Grp a)
  then show ?case by simp
qed

lemma rmatch_cap_ok:
  "groups_numeric r \<Longrightarrow> cap_ok cap \<Longrightarrow> (s', cap') \<in> set (rmatch r s cap) \<Longrightarrow> cap_ok cap'"
proof (induction r arbitrary: s cap s' cap')
  case (Lit l)
  then show ?case by (simp split: if_splits)
next
  case (Cls c)
  then show ?case by (cases s) (simp_all split: if_splits)
next
  case (Star c)
  then show ?case using rmatch_StarE [OF Star(3)] by blast
next
  case (Seq a b)
  from rmatch_SeqE [OF Seq(5)] obtain s1 c1 where a: "(s1, c1) \<in> set (rmatch a s cap)"
    and b: "(s', cap') \<in> set (rmatch b s1 c1)" by blast
  have ga: "groups_numeric a" and gb: "groups_numeric b" using Seq(3) by simp_all
  have "cap_ok c1" using Seq(1) [OF ga Seq(4) a] .
  then show ?case using Seq(2) [OF gb _ b] by simp
next
  case (Alt a b)
  have ga: "groups_numeric a" and gb: "groups_numeric b" using Alt(3) by simp_all
  from Alt(5) have "(s', cap') \<in> set (rmatch a s cap) \<or> (s', cap') \<in> set (rmatch b s cap)"
    by simp
  then show ?case using Alt(1) [OF ga Alt(4)] Alt(2) [OF gb Alt(4)] by blast
next
  case (Opt a)
  have ga: "groups_numeric a" using Opt(2) by simp
  from Opt(4) have "(s', cap') \<in> set (rmatch a s cap) \<or> cap' = cap" by auto
  then show ?case using Opt(1) [OF ga Opt(3)] Opt(3) by blast
next
  case (Grp a)
  from rmatch_GrpE [OF Grp(4)] obtain c'' where a: "(s', c'') \<in> set (rmatch a s cap)"
    and c: "cap' = Some (take (length s - length s') s)" by blast
  have da: "digits_only a" using Grp(2) by simp
  from rmatch_digits_only [OF da a] obtain pre where
    p: "s = pre @ s'" "list_all number_char pre" by blast
  show ?case using p c by (simp add: cap_ok_def)
qed

lemma rmatch_first_cap_ok:
  "groups_numeric r \<Longrightarrow> rmatch r s None = (rest, cap) # other \<Longrightarrow> cap_ok cap"
proof -
  assume g: "groups_numeric r" and m: "rmatch r s None = (rest, cap) # other"
  have "(rest, cap) \<in> set (rmatch r s None)" using m by simp
  moreover have "cap_ok None" by (simp add: cap_ok_def)
  ultimately show "cap_ok cap" using rmatch_cap_ok [OF g] by blast
qed

lemma finditer_aux_cap_ok:
  "groups_numeric r \<Longrightarrow> (st, en, cap) \<in> set (finditer_aux r pos skip s) \<Longrightarrow> cap_ok cap"
proof (induction r pos skip s rule: finditer_aux.induct)
  case (1 r pos skip)
  show ?case
  proof (cases "rmatch r [] None")
    case Nil
    then show ?thesis using 1(2) by (cases "skip = 0") simp_all
  next
    case (Cons a other)
    obtain rest cap0 where a: "a = (rest, cap0)" by (cases a)
    have "cap_ok cap0" using rmatch_first_cap_ok [OF 1(1)] Cons a by simp
    then show ?thesis using 1(2) Cons a by (cases "skip = 0") simp_all
  qed
next
  case (2 r pos skip c cs)
  show ?case
  proof (cases "skip > 0")
    case True
    then show ?thesis using 2 by simp
  next
    case False
    show ?thesis
    proof (cases "rmatch r (c # cs) None")
      case Nil
      then show ?thesis using 2 False by simp
    next
      case (Cons a other)
      obtain rest cap0 where a: "a = (rest, cap0)" by (cases a)
      have c0: "cap_ok cap0" using rmatch_first_cap_ok [OF 2(4)] Cons a by simp
      from 2(5) have "(st, en, cap) = (pos, pos + (length (c # cs) - length rest), cap0)
          \<or> (st, en, cap) \<in> set (finditer_aux r (pos + 1) (length (c # cs) - length rest - 1) cs)"
        using False Cons a by (simp add: Let_def)
      then show ?thesis
      proof
        assume "(st, en, cap) = (pos, pos + (length (c # cs) - length rest), cap0)"
        then show ?thesis using c0 by simp
      next
        assume "(st, en, cap) \<in> set (finditer_aux r (pos + 1) (length (c # cs) - length rest - 1) cs)"
        then show ?thesis using 2(3) [OF _ Cons a [symmetric] refl 2(4)] False by simp
      qed
    qed
  qed
qed

lemma finditer_cap_ok:
  "groups_numeric r \<Longrightarrow> (st, en, cap) \<in> set (finditer r s) \<Longrightarrow> cap_ok cap"
  unfolding finditer_def by (rule finditer_aux_cap_ok)

lemma enhanced_patterns_all_numeric:
  "list_all (\<lambda>(ty, ps). list_all groups_numeric ps) enhanced_patterns"
  by (simp add: enhanced_patterns_def sep_number_def number_re_def)

lemma enhanced_patterns_numeric:
  "(ty, ps) \<in> set enhanced_patterns \<Longrightarrow> p \<in> set ps \<Longrightarrow> groups_numeric p"
  using enhanced_patterns_all_numeric by (auto simp: list_all_iff)

subsection \<open>The invariants of the loops\<close>

lemma numbered_idI:
  assumes "ty \<in> fst ` set enhanced_patterns" "g \<noteq> []" "list_all number_char g"
  shows "pattern_numbered (numbered_id ty g)"
  unfolding pattern_numbered_def list_ex_iff
  using assms by (intro bexI [of _ ty]) (simp_all add: numbered_id_def Let_def)

lemma local_ids_empty: "local_ids c b []"
  by (simp add: local_ids_def)

lemma local_ids_mono: "local_ids c b rs \<Longrightarrow> b \<le> b' \<Longrightarrow> local_ids c b' rs"
  unfolding local_ids_def by (meson less_le_trans)

lemma local_ids_snoc:
  assumes inv: "local_ids c b rs" and le: "b \<le> k"
    and r: "pattern_numbered (req_id r) \<or> req_id r = ty @ ''_'' @ str_nat c @ ''_'' @ str_nat k"
  shows "local_ids c (Suc k) (rs @ [r])"
proof (cases "pattern_numbered (req_id r)")
  case True
  have "local_ids c (Suc k) rs" using local_ids_mono [OF inv, of "Suc k"] le by simp
  then show ?thesis using True by (auto simp: local_ids_def)
next
  case False
  then have rid: "req_id r = ty @ ''_'' @ str_nat c @ ''_'' @ str_nat k" using r by simp
  have m: "local_ids c (Suc k) rs" using local_ids_mono [OF inv, of "Suc k"] le by simp
  have new: "req_id r \<notin> req_id ` {x \<in> set rs. \<not> pattern_numbered (req_id x)}"
  proof
    assume "req_id r \<in> req_id ` {x \<in> set rs. \<not> pattern_numbered (req_id x)}"
    then obtain x where x: "x \<in> set rs" "\<not> pattern_numbered (req_id x)" "req_id x = req_id r"
      by auto
    then obtain ty' k' where k': "k' < b" "req_id x = ty' @ ''_'' @ str_nat c @ ''_'' @ str_nat k'"
      using inv unfolding local_ids_def by blast
    have "k' = k" using positional_inj [of ty' c k' ty c k] k'(2) x(3) rid by simp
    then show False using k'(1) le by simp
  qed
  have all: "\<forall>x \<in> set (rs @ [r]). pattern_numbered (req_id x)
          \<or> (\<exists>ty k'. k' < Suc k \<and> req_id x = ty @ ''_'' @ str_nat c @ ''_'' @ str_nat k')"
    using m rid unfolding local_ids_def by auto
  have "distinct (map req_id (filter (\<lambda>x. \<not> pattern_numbered (req_id x)) (rs @ [r])))"
    using m new False unfolding local_ids_def by simp
  then show ?thesis using all unfolding local_ids_def by blast
qed

lemma match_loop_ids:
  "ty \<in> fst ` set enhanced_patterns \<Longrightarrow> \<forall>(st, en, cap) \<in> set ms. cap_ok cap
     \<Longrightarrow> local_ids c (length reqs) reqs
     \<Longrightarrow> match_loop h chunk_text c ty ms (reqs, P) = (reqs', P')
     \<Longrightarrow> local_ids c (length reqs') reqs'"
proof (induction ms arbitrary: reqs P)
  case Nil
  then show ?case by simp
next
  case (Cons m ms)
  obtain st en cap where m: "m = (st, en, cap)" by (cases m)
  have caps: "\<forall>(st, en, cap) \<in> set ms. cap_ok cap" and cap: "cap_ok cap"
    using Cons(3) m by auto
  let ?c = "extract_requirement_content_enhanced chunk_text st en"
  let ?rid = "(case cap of
                   Some g \<Rightarrow> if g \<noteq> [] then numbered_id ty g
                             else positional_id ty c (length reqs)
                 | None \<Rightarrow> positional_id ty c (length reqs))"
  let ?r = "\<lparr>req_id = ?rid, req_type = ty, content = strip ?c,
              chunk_index = c, priority = determine_priority ?c,
              category = categorize_requirement ?c, validation_status = ''pending''\<rparr>"
  show ?case
  proof (cases "content_hash h ?c \<in> P")
    case True
    then have "match_loop h chunk_text c ty ms (reqs, P) = (reqs', P')"
      using Cons(5) m by (simp add: Let_def)
    then show ?thesis by (rule Cons(1) [OF Cons(2) caps Cons(4)])
  next
    case False
    then have rec: "match_loop h chunk_text c ty ms (reqs @ [?r], insert (content_hash h ?c) P) = (reqs', P')"
      using Cons(5) m by (simp add: Let_def)
    have "pattern_numbered ?rid \<or> ?rid = upper ty @ ''_'' @ str_nat c @ ''_'' @ str_nat (length reqs)"
    proof (cases cap)
      case None
      then show ?thesis by (simp add: positional_id_def)
    next
      case (Some g)
      show ?thesis
      proof (cases "g = []")
        case True
        then show ?thesis using Some by (simp add: positional_id_def)
      next
        case False
        have "list_all number_char g" using cap Some by (simp add: cap_ok_def)
        then have "pattern_numbered (numbered_id ty g)" using Cons(2) False by (intro numbered_idI)
        then show ?thesis using Some False by simp
      qed
    qed
    then have "local_ids c (Suc (length reqs)) (reqs @ [?r])"
      using local_ids_snoc [OF Cons(4) le_refl, of ?r "upper ty"] by simp
    then have "local_ids c (length (reqs @ [?r])) (reqs @ [?r])" by simp
    then show ?thesis by (rule Cons(1) [OF Cons(2) caps _ rec])
  qed
qed

lemma pattern_loop_ids:
  "ty \<in> fst ` set enhanced_patterns \<Longrightarrow> \<forall>p \<in> set ps. groups_numeric p
     \<Longrightarrow> local_ids c (length reqs) reqs
     \<Longrightarrow> pattern_loop h chunk_text c ty ps (reqs, P) = (reqs', P')
     \<Longrightarrow> local_ids c (length reqs') reqs'"
proof (induction ps arbitrary: reqs P)
  case Nil
  then show ?case by simp
next
  case (Cons p ps)
  obtain reqs1 P1 where m: "match_loop h chunk_text c ty (finditer p chunk_text) (reqs, P) = (reqs1, P1)"
    by (cases "match_loop h chunk_text c ty (finditer p chunk_text) (reqs, P)")
  have g: "groups_numeric p" and gs: "\<forall>p \<in> set ps. groups_numeric p" using Cons(3) by simp_all
  have caps: "\<forall>(st, en, cap) \<in> set (finditer p chunk_text). cap_ok cap"
    using finditer_cap_ok [OF g] by auto
  have l1: "local_ids c (length reqs1) reqs1" using match_loop_ids [OF Cons(2) caps Cons(4) m] .
  have "pattern_loop h chunk_text c ty ps (reqs1, P1) = (reqs', P')" using Cons(5) m by simp
  then show ?case by (rule Cons(1) [OF Cons(2) gs l1])
qed

lemma type_loop_ids:
  "set pats \<subseteq> set enhanced_patterns
     \<Longrightarrow> local_ids c (length reqs) reqs
     \<Longrightarrow> type_loop h chunk_text c pats (reqs, P) = (reqs', P')
     \<Longrightarrow> local_ids c (length reqs') reqs'"
proof (induction pats arbitrary: reqs P)
  case Nil
  then show ?case by simp
next
  case (Cons tp pats)
  obtain ty ps where tp: "tp = (ty, ps)" by (cases tp)
  obtain reqs1 P1 where m: "pattern_loop h chunk_text c ty ps (reqs, P) = (reqs1, P1)"
    by (cases "pattern_loop h chunk_text c ty ps (reqs, P)")
  have mem: "(ty, ps) \<in> set enhanced_patterns" and sub: "set pats \<subseteq> set enhanced_patterns"
    using Cons(2) tp by simp_all
  have ty: "ty \<in> fst ` set enhanced_patterns" using mem by force
  have gs: "\<forall>p \<in> set ps. groups_numeric p" using enhanced_patterns_numeric [OF mem] by blast
  have l1: "local_ids c (length reqs1) reqs1" using pattern_loop_ids [OF ty gs Cons(3) m] .
  have "type_loop h chunk_text c pats (reqs1, P1) = (reqs', P')" using Cons(4) m tp by simp
  then show ?case by (rule Cons(1) [OF sub l1])
qed

lemma generic_loop_ids:
  "local_ids c i reqs
     \<Longrightarrow> generic_loop h c (enumerate i ss) (reqs, P) = (reqs', P')
     \<Longrightarrow> local_ids c (i + length ss) reqs'"
proof (induction ss arbitrary: i reqs P)
  case Nil
  then show ?case by simp
next
  case (Cons s ss)
  let ?r = "\<lparr>req_id = generic_id c i, req_type = ''general'',
              content = strip s, chunk_index = c,
              priority = ''medium'', category = ''general'',
              validation_status = ''pending''\<rparr>"
  show ?case
  proof (cases "length (strip s) > 60 \<and> content_hash h s \<notin> P")
    case True
    then have rec: "generic_loop h c (enumerate (Suc i) ss) (reqs @ [?r], insert (content_hash h s) P) = (reqs', P')"
      using Cons(3) by simp
    have "req_id ?r = ''REQ'' @ ''_'' @ str_nat c @ ''_'' @ str_nat i" by (simp add: generic_id_def)
    then have "local_ids c (Suc i) (reqs @ [?r])"
      using local_ids_snoc [OF Cons(2) le_refl, of ?r "''REQ''"] by blast
    then have "local_ids c (Suc i + length ss) reqs'" using rec by (rule Cons(1))
    then show ?thesis by simp
  next
    case False
    then have rec: "generic_loop h c (enumerate (Suc i) ss) (reqs, P) = (reqs', P')"
      using Cons(3) by auto
    have "local_ids c (Suc i) reqs" using Cons(2) by (rule local_ids_mono) simp
    then have "local_ids c (Suc i + length ss) reqs'" using rec by (rule Cons(1))
    then show ?thesis by simp
  qed
qed

lemma chunk_ids:
  assumes "extract_requirements_from_chunk_enhanced h chunk_text c enhanced_patterns P = (reqs', P')"
  shows "\<exists>b. local_ids c b reqs'"
proof -
  obtain reqs1 P1 where t: "type_loop h chunk_text c enhanced_patterns ([], P) = (reqs1, P1)"
    by (cases "type_loop h chunk_text c enhanced_patterns ([], P)")
  have l1: "local_ids c (length reqs1) reqs1"
    using type_loop_ids [OF subset_refl _ t] by (simp add: local_ids_empty)
  show ?thesis
  proof (cases "reqs1 = []")
    case True
    then have "generic_loop h c (enumerate 0 (split_into_sentences chunk_text)) ([], P1) = (reqs', P')"
      using assms t by (simp add: extract_requirements_from_chunk_enhanced_def)
    then show ?thesis using generic_loop_ids [OF local_ids_empty] by blast
  next
    case False
    then have "reqs' = reqs1" using assms t by (simp add: extract_requirements_from_chunk_enhanced_def)
    then show ?thesis using l1 by blast
  qed
qed

lemma global_ids_mono: "global_ids n rs \<Longrightarrow> n \<le> n' \<Longrightarrow> global_ids n' rs"
  unfolding global_ids_def by (meson less_le_trans)

lemma global_ids_append:
  assumes g: "global_ids n rs" and l: "local_ids n b ls"
  shows "global_ids (Suc n) (rs @ ls)"
proof -
  let ?N = "\<lambda>r. \<not> pattern_numbered (req_id r)"
  have disj: "req_id ` {x \<in> set rs. ?N x} \<inter> req_id ` {x \<in> set ls. ?N x} = {}"
  proof (rule ccontr)
    assume "req_id ` {x \<in> set rs. ?N x} \<inter> req_id ` {x \<in> set ls. ?N x} \<noteq> {}"
    then obtain x y where x: "x \<in> set rs" "?N x" and y: "y \<in> set ls" "?N y"
      and e: "req_id x = req_id y" by auto
    obtain ty c k where c: "c < n" "req_id x = ty @ ''_'' @ str_nat c @ ''_'' @ str_nat k"
      using g x unfolding global_ids_def by blast
    obtain ty' k' where k': "req_id y = ty' @ ''_'' @ str_nat n @ ''_'' @ str_nat k'"
      using l y unfolding local_ids_def by blast
    have "c = n" using positional_inj [of ty c k ty' n k'] c(2) k' e by simp
    then show False using c(1) by simp
  qed
  have all: "\<forall>r \<in> set (rs @ ls). pattern_numbered (req_id r)
          \<or> (\<exists>ty c k. c < Suc n \<and> req_id r = ty @ ''_'' @ str_nat c @ ''_'' @ str_nat k)"
  proof
    fix r assume "r \<in> set (rs @ ls)"
    then consider "r \<in> set rs" | "r \<in> set ls" by auto
    then show "pattern_numbered (req_id r)
          \<or> (\<exists>ty c k. c < Suc n \<and> req_id r = ty @ ''_'' @ str_nat c @ ''_'' @ str_nat k)"
    proof cases
      case 1
      then show ?thesis using g unfolding global_ids_def by (meson less_Suc_eq)
    next
      case 2
      then show ?thesis using l unfolding local_ids_def by (meson lessI)
    qed
  qed
  have "distinct (map req_id (filter ?N (rs @ ls)))"
    using g l disj unfolding global_ids_def local_ids_def by simp
  then show ?thesis using all unfolding global_ids_def by blast
qed

lemma chunk_loop_ids:
  "global_ids n reqs
     \<Longrightarrow> chunk_loop h (enumerate n chunks) (reqs, P) = (reqs', P')
     \<Longrightarrow> global_ids (n + length chunks) reqs'"
proof (induction chunks arbitrary: n reqs P)
  case Nil
  then show ?case by simp
next
  case (Cons chunk_text chunks)
  show ?case
  proof (cases "length (strip chunk_text) < 50")
    case True
    then have rec: "chunk_loop h (enumerate (Suc n) chunks) (reqs, P) = (reqs', P')"
      using Cons(3) by simp
    have "global_ids (Suc n) reqs" using Cons(2) by (rule global_ids_mono) simp
    then have "global_ids (Suc n + length chunks) reqs'" using rec by (rule Cons(1))
    then show ?thesis by simp
  next
    case False
    obtain ls P1 where e: "extract_requirements_from_chunk_enhanced h chunk_text n enhanced_patterns P = (ls, P1)"
      by (cases "extract_requirements_from_chunk_enhanced h chunk_text n enhanced_patterns P")
    then have rec: "chunk_loop h (enumerate (Suc n) chunks) (reqs @ ls, P1) = (reqs', P')"
      using Cons(3) False by simp
    obtain b where "local_ids n b ls" using chunk_ids [OF e] by blast
    then have "global_ids (Suc n) (reqs @ ls)" using global_ids_append [OF Cons(2)] by blast
    then have "global_ids (Suc n + length chunks) reqs'" using rec by (rule Cons(1))
    then show ?thesis by simp
  qed
qed

subsection \<open>Examples\<close>

lemma login_extract:
  "extract_requirements (\<lambda>s. s) [login_chunk, login_check_chunk] = [login_req, login_check_req]"
  by code_simp

lemma shall_once_extract:
  "extract_requirements (\<lambda>s. s) [shall_chunk] = [shall_req]"
  by code_simp

lemma shall_twice_extract:
  "extract_requirements (\<lambda>s. s) [shall_chunk, shall_chunk] = [shall_req, shall_sentence_req]"
  by code_simp

lemma example_ids_not_numbered:
  "\<not> pattern_numbered ''FUNCTIONAL_0_0'' \<and> \<not> pattern_numbered ''REQ_1_0''
   \<and> pattern_numbered ''FUNCTIONAL_1''"
  by code_simp

text \<open>The positional and the generic-fallback ids never have the pattern-numbered shape.\<close>

lemma upper_type_names:
  "upper ''functional'' = ''FUNCTIONAL'' \<and> upper ''non_functional'' = ''NON_FUNCTIONAL''
   \<and> upper ''user_story'' = ''USER_STORY''"
  by code_simp

lemma number_char_underscore: "\<not> number_char CHR ''_''"
  by code_simp

lemma generic_not_numbered: "\<not> pattern_numbered (generic_id c i)"
  by (simp add: pattern_numbered_def enhanced_patterns_def generic_id_def upper_type_names Let_def)

lemma positional_not_numbered:
  "ty \<in> fst ` set enhanced_patterns \<Longrightarrow> \<not> pattern_numbered (positional_id ty c n)"
  by (auto simp: pattern_numbered_def enhanced_patterns_def positional_id_def upper_type_names
                 Let_def number_char_underscore)

subsection \<open>The contents of the records\<close>

text \<open>
  A candidate is emitted only when its fingerprint is new, and the fingerprint is a
  function of the content stored in the record: the contents of the records of one call
  are pairwise distinct strings, for every fingerprint function.
\<close>

lemma content_hash_fingerprint: "content_hash h c = fingerprint h (strip c)"
  by (simp add: content_hash_def fingerprint_def)

lemma seen_ok_snoc:
  assumes "seen_ok h rs P" "fingerprint h (content r) \<notin> P"
  shows "seen_ok h (rs @ [r]) (insert (fingerprint h (content r)) P)"
  using assms unfolding seen_ok_def by auto

lemma match_loop_contents:
  "seen_ok h (G @ reqs) P
     \<Longrightarrow> match_loop h chunk_text c ty ms (reqs, P) = (reqs', P')
     \<Longrightarrow> seen_ok h (G @ reqs') P'"
proof (induction ms arbitrary: reqs P)
  case Nil
  then show ?case by simp
next
  case (Cons m ms)
  obtain st en cap where m: "m = (st, en, cap)" by (cases m)
  let ?c = "extract_requirement_content_enhanced chunk_text st en"
  let ?rid = "(case cap of
                   Some g \<Rightarrow> if g \<noteq> [] then numbered_id ty g
                             else positional_id ty c (length reqs)
                 | None \<Rightarrow> positional_id ty c (length reqs))"
  let ?r = "\<lparr>req_id = ?rid, req_type = ty, content = strip ?c,
              chunk_index = c, priority = determine_priority ?c,
              category = categorize_requirement ?c, validation_status = ''pending''\<rparr>"
  show ?case
  proof (cases "content_hash h ?c \<in> P")
    case True
    then have "match_loop h chunk_text c ty ms (reqs, P) = (reqs', P')"
      using Cons(3) m by (simp add: Let_def)
    then show ?thesis by (rule Cons(1) [OF Cons(2)])
  next
    case False
    then have rec: "match_loop h chunk_text c ty ms (reqs @ [?r], insert (content_hash h ?c) P) = (reqs', P')"
      using Cons(3) m by (simp add: Let_def)
    have f: "content_hash h ?c = fingerprint h (content ?r)" by (simp add: content_hash_fingerprint)
    have "seen_ok h ((G @ reqs) @ [?r]) (insert (fingerprint h (content ?r)) P)"
      using Cons(2) False unfolding f by (rule seen_ok_snoc)
    then have "seen_ok h (G @ (reqs @ [?r])) (insert (content_hash h ?c) P)"
      unfolding f by simp
    then show ?thesis using rec by (rule Cons(1))
  qed
qed

lemma pattern_loop_contents:
  "seen_ok h (G @ reqs) P
     \<Longrightarrow> pattern_loop h chunk_text c ty ps (reqs, P) = (reqs', P')
     \<Longrightarrow> seen_ok h (G @ reqs') P'"
proof (induction ps arbitrary: reqs P)
  case Nil
  then show ?case by simp
next
  case (Cons p ps)
  obtain reqs1 P1 where m: "match_loop h chunk_text c ty (finditer p chunk_text) (reqs, P) = (reqs1, P1)"
    by (cases "match_loop h chunk_text c ty (finditer p chunk_text) (reqs, P)")
  have s1: "seen_ok h (G @ reqs1) P1" using match_loop_contents [OF Cons(2) m] .
  have "pattern_loop h chunk_text c ty ps (reqs1, P1) = (reqs', P')" using Cons(3) m by simp
  then show ?case by (rule Cons(1) [OF s1])
qed

lemma type_loop_contents:
  "seen_ok h (G @ reqs) P
     \<Longrightarrow> type_loop h chunk_text c pats (reqs, P) = (reqs', P')
     \<Longrightarrow> seen_ok h (G @ reqs') P'"
proof (induction pats arbitrary: reqs P)
  case Nil
  then show ?case by simp
next
  case (Cons tp pats)
  obtain ty ps where tp: "tp = (ty, ps)" by (cases tp)
  obtain reqs1 P1 where m: "pattern_loop h chunk_text c ty ps (reqs, P) = (reqs1, P1)"
    by (cases "pattern_loop h chunk_text c ty ps (reqs, P)")
  have s1: "seen_ok h (G @ reqs1) P1" using pattern_loop_contents [OF Cons(2) m] .
  have "type_loop h chunk_text c pats (reqs1, P1) = (reqs', P')" using Cons(3) m tp by simp
  then show ?case by (rule Cons(1) [OF s1])
qed

lemma generic_loop_contents:
  "seen_ok h (G @ reqs) P
     \<Longrightarrow> generic_loop h c iss (reqs, P) = (reqs', P')
     \<Longrightarrow> seen_ok h (G @ reqs') P'"
proof (induction iss arbitrary: reqs P)
  case Nil
  then show ?case by simp
next
  case (Cons x iss)
  obtain i s where x: "x = (i, s)" by (cases x)
  let ?r = "\<lparr>req_id = generic_id c i, req_type = ''general'',
              content = strip s, chunk_index = c,
              priority = ''medium'', category = ''general'',
              validation_status = ''pending''\<rparr>"
  show ?case
  proof (cases "length (strip s) > 60 \<and> content_hash h s \<notin> P")
    case True
    then have rec: "generic_loop h c iss (reqs @ [?r], insert (content_hash h s) P) = (reqs', P')"
      using Cons(3) x by simp
    have f: "content_hash h s = fingerprint h (content ?r)" by (simp add: content_hash_fingerprint)
    have "seen_ok h ((G @ reqs) @ [?r]) (insert (fingerprint h (content ?r)) P)"
      using Cons(2) True unfolding f by (intro seen_ok_snoc) simp_all
    then have "seen_ok h (G @ (reqs @ [?r])) (insert (content_hash h s) P)"
      unfolding f by simp
    then show ?thesis using rec by (rule Cons(1))
  next
    case False
    then have rec: "generic_loop h c iss (reqs, P) = (reqs', P')"
      using Cons(3) x by auto
    show ?thesis using Cons(2) rec by (rule Cons(1))
  qed
qed

lemma chunk_contents:
  assumes "seen_ok h G P"
    and "extract_requirements_from_chunk_enhanced h chunk_text c pats P = (reqs', P')"
  shows "seen_ok h (G @ reqs') P'"
proof -
  obtain reqs1 P1 where t: "type_loop h chunk_text c pats ([], P) = (reqs1, P1)"
    by (cases "type_loop h chunk_text c pats ([], P)")
  have s1: "seen_ok h (G @ reqs1) P1" using type_loop_contents [of h G "[]" P, OF _ t] assms(1) by simp
  show ?thesis
  proof (cases "reqs1 = []")
    case True
    then have g: "generic_loop h c (enumerate 0 (split_into_sentences chunk_text)) ([], P1) = (reqs', P')"
      using assms(2) t by (simp add: extract_requirements_from_chunk_enhanced_def)
    show ?thesis using generic_loop_contents [of h G "[]" P1, OF _ g] s1 True by simp
  next
    case False
    then have "reqs' = reqs1 \<and> P' = P1"
      using assms(2) t by (simp add: extract_requirements_from_chunk_enhanced_def)
    then show ?thesis using s1 by simp
  qed
qed

lemma chunk_loop_contents:
  "seen_ok h reqs P
     \<Longrightarrow> chunk_loop h ics (reqs, P) = (reqs', P')
     \<Longrightarrow> seen_ok h reqs' P'"
proof (induction ics arbitrary: reqs P)
  case Nil
  then show ?case by simp
next
  case (Cons x ics)
  obtain c chunk_text where x: "x = (c, chunk_text)" by (cases x)
  show ?case
  proof (cases "length (strip chunk_text) < 50")
    case True
    then have "chunk_loop h ics (reqs, P) = (reqs', P')" using Cons(3) x by simp
    then show ?thesis by (rule Cons(1) [OF Cons(2)])
  next
    case False
    obtain ls P1 where e: "extract_requirements_from_chunk_enhanced h chunk_text c enhanced_patterns P = (ls, P1)"
      by (cases "extract_requirements_from_chunk_enhanced h chunk_text c enhanced_patterns P")
    then have rec: "chunk_loop h ics (reqs @ ls, P1) = (reqs', P')"
      using Cons(3) False x by simp
    have "seen_ok h (reqs @ ls) P1" using chunk_contents [OF Cons(2) e] .
    then show ?thesis using rec by (rule Cons(1))
  qed
qed

lemma extracted_contents_distinct:
  "distinct (map content (extract_requirements h text_chunks))"
proof -
  obtain reqs P where c: "chunk_loop h (enumerate 0 text_chunks) ([], {}) = (reqs, P)"
    by (cases "chunk_loop h (enumerate 0 text_chunks) ([], {})")
  have "seen_ok h [] {}" by (simp add: seen_ok_def)
  then have "seen_ok h reqs P" using c by (rule chunk_loop_contents)
  then have d: "distinct (map content reqs)" by (simp add: seen_ok_def)
  have "mset (map content (sort_key req_id reqs)) = mset (map content reqs)" by simp
  then have "distinct (map content (sort_key req_id reqs))"
    using d by (metis mset_eq_imp_distinct_iff)
  then show ?thesis by (simp add: extract_requirements_def c)
qed

subsection \<open>Uniqueness of the ids and suppression of duplicates\<close>

text \<open>
  C2, as the code has it. Among the records returned by one call to
  \<open>extract_requirements\<close>, the ids that are not pattern-numbered (the positional ids
  \<open>TYPE_<chunkIndex>_<localCounter>\<close> and the generic-fallback ids
  \<open>REQ_<chunkIndex>_<sentenceIndex>\<close>) are pairwise distinct, for every fingerprint
  function and every chunk sequence; a positional id of a requirement type of
  \<open>enhanced_patterns\<close> and a generic-fallback id never have the pattern-numbered shape
  \<open>TYPE_<number>\<close>. The pattern-numbered ids are taken from the text and are left out.
\<close>

theorem positional_generic_ids_unique:
  "distinct (map req_id (filter (\<lambda>r. \<not> pattern_numbered (req_id r))
                                (extract_requirements h text_chunks)))
   \<and> (ty \<in> fst ` set enhanced_patterns \<longrightarrow> \<not> pattern_numbered (positional_id ty c n))
   \<and> \<not> pattern_numbered (generic_id c' i)"
proof -
  obtain reqs P where c: "chunk_loop h (enumerate 0 text_chunks) ([], {}) = (reqs, P)"
    by (cases "chunk_loop h (enumerate 0 text_chunks) ([], {})")
  have "global_ids 0 []" by (simp add: global_ids_def)
  then have "global_ids (0 + length text_chunks) reqs" using c by (rule chunk_loop_ids)
  then have d: "distinct (map req_id (filter (\<lambda>r. \<not> pattern_numbered (req_id r)) reqs))"
    by (simp add: global_ids_def)
  have "mset (map req_id (filter (\<lambda>r. \<not> pattern_numbered (req_id r)) (sort_key req_id reqs)))
      = mset (map req_id (filter (\<lambda>r. \<not> pattern_numbered (req_id r)) reqs))"
    by simp
  then have "distinct (map req_id (filter (\<lambda>r. \<not> pattern_numbered (req_id r)) (sort_key req_id reqs)))"
    using d by (metis mset_eq_imp_distinct_iff)
  then have u: "distinct (map req_id (filter (\<lambda>r. \<not> pattern_numbered (req_id r))
                                (extract_requirements h text_chunks)))"
    by (simp add: extract_requirements_def c)
  show ?thesis using u positional_not_numbered [of ty c n] generic_not_numbered [of c' i] by blast
qed

theorem positional_generic_ids_unique_witness:
  "''functional'' \<in> fst ` set enhanced_patterns
   \<and> positional_id ''functional'' 0 0 = ''FUNCTIONAL_0_0''
   \<and> \<not> pattern_numbered (positional_id ''functional'' 0 0)
   \<and> generic_id 1 0 = ''REQ_1_0''
   \<and> \<not> pattern_numbered (generic_id 1 0)
   \<and> map req_id (filter (\<lambda>r. \<not> pattern_numbered (req_id r))
                      (extract_requirements (\<lambda>s. s) [shall_chunk, shall_chunk]))
     = [''FUNCTIONAL_0_0'', ''REQ_1_0'']
   \<and> distinct (map req_id (filter (\<lambda>r. \<not> pattern_numbered (req_id r))
                                  (extract_requirements (\<lambda>s. s) [shall_chunk, shall_chunk])))"
proof -
  have m: "''functional'' \<in> fst ` set enhanced_patterns"
    by (simp add: enhanced_patterns_def)
  have p: "positional_id ''functional'' 0 0 = ''FUNCTIONAL_0_0''" by code_simp
  have g: "generic_id 1 0 = ''REQ_1_0''" by code_simp
  have n: "\<not> pattern_numbered ''FUNCTIONAL_0_0''" "\<not> pattern_numbered ''REQ_1_0''"
    using example_ids_not_numbered by simp_all
  have e: "map req_id (filter (\<lambda>r. \<not> pattern_numbered (req_id r))
                      (extract_requirements (\<lambda>s. s) [shall_chunk, shall_chunk]))
     = [''FUNCTIONAL_0_0'', ''REQ_1_0'']"
    using n by (simp add: shall_twice_extract shall_req_def shall_sentence_req_def)
  note t = positional_generic_ids_unique
             [of "\<lambda>s. s" "[shall_chunk, shall_chunk]" "''functional''" 0 0 1 0]
  show ?thesis
    using m p g e t [THEN conjunct1] t [THEN conjunct2, THEN conjunct1]
      t [THEN conjunct2, THEN conjunct2]
    by blast
qed

text \<open>
  The claim C2 as written fails: two chunks that cite \<open>FR-1\<close> give two records with
  different contents and the same id \<open>FUNCTIONAL_1\<close>.
\<close>

theorem pattern_numbered_ids_counterexample:
  "extract_requirements (\<lambda>s. s) [login_chunk, login_check_chunk] = [login_req, login_check_req]
   \<and> req_id login_req = req_id login_check_req
   \<and> content login_req \<noteq> content login_check_req
   \<and> \<not> distinct (map req_id (extract_requirements (\<lambda>s. s) [login_chunk, login_check_chunk]))"
  by (simp add: login_extract) (simp add: login_req_def login_check_req_def)

text \<open>
  C9, at a chunk that occurs twice. The first occurrence gives the record of the pattern
  match. At the second occurrence the pattern candidate is suppressed by its fingerprint;
  the list of the chunk is then empty, the generic fallback runs, and the sentence is
  emitted once more, without its full stop, as a record of chunk 1.
\<close>

theorem duplicate_chunk_fallback:
  "extract_requirements (\<lambda>s. s) [shall_chunk] = [shall_req]
   \<and> extract_requirements (\<lambda>s. s) [shall_chunk, shall_chunk] = [shall_req, shall_sentence_req]
   \<and> chunk_index shall_sentence_req = 1"
  by (simp add: shall_once_extract shall_twice_extract shall_sentence_req_def)

end
